theory Spec2Isabelle
  imports Main "HOL-Library.Word"
begin

section \<open>Data model\<close>

text \<open>
  The wallet's account-UTXO indexer (\<^verbatim>\<open>blockchain/wallet/indexer.go\<close>) and the
  annotated-output projection of the query package.

  Byte slices and Go strings are \<open>string\<close> (a list of bytes); \<^verbatim>\<open>string(b)\<close> and
  \<^verbatim>\<open>[]byte(s)\<close> are the identity. A \<^verbatim>\<open>bc.Hash\<close> is represented by its 32 bytes, so
  \<^verbatim>\<open>h.Bytes()\<close> is the identity as well. Pointer fields of ledger entries are modelled
  as values: the ledger's constructors always populate them.
\<close>

type_synonym bytes = string
type_synonym Hash = bytes

definition Bytes :: "Hash \<Rightarrow> bytes" where
  "Bytes h = h"

record AssetAmount =
  AssetId :: Hash
  Amount :: "64 word"

text \<open>\<^verbatim>\<open>rawOutput\<close> and \<^verbatim>\<open>accountOutput\<close> of indexer.go; the second embeds the first.\<close>

record rawOutput =
  OutputID :: Hash
  AssetAmount :: AssetAmount
  ControlProgram :: bytes
  txHash :: Hash
  outputIndex :: "32 word"
  sourceID :: Hash
  sourcePos :: "64 word"
  refData :: Hash

record accountOutput = rawOutput +
  AccountID :: string
  keyIndex :: "64 word"
  change :: bool

text \<open>
  Modelled from the spec: the ledger view's entry-graph variants (package bc), which are
  not among the source files. An output entry carries its value source, its program and
  the hash of its reference data; a spend entry names the output it consumes; issuance,
  retirement and the remaining variants carry nothing the indexer reads.
\<close>

record ValueSource =
  Ref :: Hash
  Value :: AssetAmount
  Position :: "64 word"

record Program =
  VmVersion :: "64 word"
  Code :: bytes

record bcOutput =
  Source :: ValueSource
  out_ControlProgram :: Program
  Data :: Hash

record bcSpend =
  SpentOutputId :: Hash

datatype Entry = Output bcOutput | Spend bcSpend | Issuance | Retirement | OtherEntry

text \<open>
  Modelled from the spec: a transaction as the ledger view exposes it (package legacy):
  the ordered outputs of the transaction data, and the entry graph with the ordered
  input ids and result ids.
\<close>

record TxOutput =
  to_AssetAmount :: AssetAmount
  to_ControlProgram :: bytes
  to_ReferenceData :: bytes

record Tx =
  ID :: Hash
  Entries :: "Hash \<rightharpoonup> Entry"
  InputIDs :: "Hash list"
  ResultIds :: "Hash list"
  Outputs :: "TxOutput list"

record Block =
  Transactions :: "Tx list"

text \<open>
  Modelled from the spec: the storage keys of package account. Each key is a fixed prefix
  followed by its argument, so the three kinds are disjoint and each is injective
  (``a key derived deterministically and exclusively from OutputID'').
\<close>

datatype dbkey = AccountUTXOKey bytes | AccountCPKey bytes | AccountKey string

text \<open>Modelled from the spec: the registry record \<open>{AccountID, KeyIndex, Change}\<close>
  (\<^verbatim>\<open>account.CtrlProgram\<close>) and the persisted record (\<^verbatim>\<open>account.UTXO\<close>).\<close>

record CtrlProgram =
  cp_AccountID :: string
  cp_KeyIndex :: "64 word"
  cp_ControlProgram :: bytes
  cp_Change :: bool

record UTXO =
  u_OutputID :: bytes
  u_AssetID :: bytes
  u_Amount :: "64 word"
  u_AccountID :: string
  u_ProgramIndex :: "64 word"
  u_Program :: bytes
  u_SourceID :: bytes
  u_SourcePos :: "64 word"
  u_RefData :: bytes
  u_Change :: bool

text \<open>
  The wallet holds the database handle. \<^verbatim>\<open>w.DB.Get\<close> returns nil for an absent key:
  \<open>None\<close>.
\<close>

record Wallet =
  DB :: "dbkey \<rightharpoonup> bytes"

text \<open>
  The library functions the indexer calls are parameters of the model:
  \<^item> \<open>Sum256\<close> is \<^verbatim>\<open>sha3pool.Sum256\<close>;
  \<^item> \<open>Unmarshal\<close> is \<^verbatim>\<open>json.Unmarshal(bytes, &cp)\<close>: it decodes into the
    \<^verbatim>\<open>CtrlProgram\<close> it is handed and returns whether it succeeded together with the
    structure as it left it (encoding/json sets the fields the document holds and leaves
    the others as they were);
  \<^item> \<open>Marshal\<close> is \<^verbatim>\<open>json.Marshal\<close> on a persisted record, \<open>None\<close> when it fails;
    the stored value type \<open>'v\<close> is left open.
\<close>

record 'v lib =
  Sum256 :: "bytes \<Rightarrow> bytes"
  Unmarshal :: "bytes \<Rightarrow> CtrlProgram \<Rightarrow> bool \<times> CtrlProgram"
  Marshal :: "UTXO \<Rightarrow> 'v option"

text \<open>
  Modelled from the spec: the mutation batch, ``an ordered collection of key-set /
  key-delete operations committed atomically by the caller''; deleting an absent key is
  a no-op.
\<close>

datatype 'v op = Set dbkey 'v | Delete dbkey

type_synonym 'v batch = "'v op list"

fun apply_op :: "(dbkey \<rightharpoonup> 'v) \<Rightarrow> 'v op \<Rightarrow> (dbkey \<rightharpoonup> 'v)" where
  "apply_op idx (Set k v) = idx(k \<mapsto> v)"
| "apply_op idx (Delete k) = idx(k := None)"

definition commit :: "'v batch \<Rightarrow> (dbkey \<rightharpoonup> 'v) \<Rightarrow> (dbkey \<rightharpoonup> 'v)" where
  "commit ops idx = foldl apply_op idx ops"

section \<open>Output extraction\<close>

datatype entry_error = ErrMissingEntry | ErrEntryType

text \<open>Modelled from the spec: \<^verbatim>\<open>tx.Spend(id)\<close> of package bc, which resolves an input id
  to its spend entry; an issuance input does not resolve.\<close>

definition tx_Spend :: "Tx \<Rightarrow> Hash \<Rightarrow> entry_error + bcSpend" where
  "tx_Spend tx i =
     (case Entries tx i of
        None \<Rightarrow> Inl ErrMissingEntry
      | Some (Spend sp) \<Rightarrow> Inr sp
      | Some _ \<Rightarrow> Inl ErrEntryType)"

text \<open>\<^verbatim>\<open>prevoutDBKeys\<close>: the inner loop over the input ids of one transaction, then the
  loop over the transactions.\<close>

fun prevoutInputs :: "Tx \<Rightarrow> Hash list \<Rightarrow> Hash list" where
  "prevoutInputs tx [] = []"
| "prevoutInputs tx (inpID # rest) =
     (case tx_Spend tx inpID of
        Inr sp \<Rightarrow> SpentOutputId sp # prevoutInputs tx rest
      | Inl err \<Rightarrow> prevoutInputs tx rest)"

fun prevoutDBKeys :: "Tx list \<Rightarrow> Hash list" where
  "prevoutDBKeys [] = []"
| "prevoutDBKeys (tx # txs) = prevoutInputs tx (InputIDs tx) @ prevoutDBKeys txs"

text \<open>The first loop of \<^verbatim>\<open>ReverseAccountUTXOs\<close>: the outputs the block spends, read from
  the spending transaction's own entries.\<close>

fun reverseInputs :: "Tx \<Rightarrow> Hash list \<Rightarrow> rawOutput list" where
  "reverseInputs tx [] = []"
| "reverseInputs tx (inpID # rest) =
     (case tx_Spend tx inpID of
        Inl err \<Rightarrow> reverseInputs tx rest
      | Inr sp \<Rightarrow>
          (case Entries tx (SpentOutputId sp) of
             Some (Output resOut) \<Rightarrow>
               \<lparr>OutputID = SpentOutputId sp,
                AssetAmount = Value (Source resOut),
                ControlProgram = Code (out_ControlProgram resOut),
                txHash = ID tx,
                outputIndex = 0,
                sourceID = Ref (Source resOut),
                sourcePos = Position (Source resOut),
                refData = Data resOut\<rparr> # reverseInputs tx rest
           | _ \<Rightarrow> reverseInputs tx rest))"

fun reverseOuts :: "Tx list \<Rightarrow> rawOutput list" where
  "reverseOuts [] = []"
| "reverseOuts (tx # txs) = reverseInputs tx (InputIDs tx) @ reverseOuts txs"

text \<open>
  The extraction loop of \<^verbatim>\<open>BuildAccountUTXOs\<close>. \<^verbatim>\<open>tx.ResultIds[j]\<close> panics when \<open>j\<close> is
  out of range: the result is \<open>None\<close>. \<^verbatim>\<open>tx.OutputID(j)\<close> is \<^verbatim>\<open>tx.ResultIds[j]\<close>.
  A result id whose entry is not an output entry (a retirement, or no entry) is skipped.
\<close>

fun buildOutputs :: "Tx \<Rightarrow> nat \<Rightarrow> TxOutput list \<Rightarrow> rawOutput list option" where
  "buildOutputs tx j [] = Some []"
| "buildOutputs tx j (out # rest) =
     (if length (ResultIds tx) \<le> j then None
      else
        (case Entries tx (ResultIds tx ! j) of
           Some (Output resOut) \<Rightarrow>
             map_option
               ((#) \<lparr>OutputID = ResultIds tx ! j,
                     AssetAmount = to_AssetAmount out,
                     ControlProgram = to_ControlProgram out,
                     txHash = ID tx,
                     outputIndex = of_nat j,
                     sourceID = Ref (Source resOut),
                     sourcePos = Position (Source resOut),
                     refData = Data resOut\<rparr>)
               (buildOutputs tx (Suc j) rest)
         | _ \<Rightarrow> buildOutputs tx (Suc j) rest))"

fun buildOuts :: "Tx list \<Rightarrow> rawOutput list option" where
  "buildOuts [] = Some []"
| "buildOuts (tx # txs) =
     (case buildOutputs tx 0 (Outputs tx) of
        None \<Rightarrow> None
      | Some outs \<Rightarrow> map_option ((@) outs) (buildOuts txs))"

section \<open>Ownership resolution\<close>

text \<open>
  \<^verbatim>\<open>loadAccountInfo\<close>. Reading \<^verbatim>\<open>outsByScript[s]\<close> gives the nil slice for a missing
  key. The first loop groups the outputs by script, appending each to the group of its
  script.
\<close>

definition groupOf :: "(bytes \<rightharpoonup> rawOutput list) \<Rightarrow> bytes \<Rightarrow> rawOutput list" where
  "groupOf outsByScript s = (case outsByScript s of None \<Rightarrow> [] | Some g \<Rightarrow> g)"

fun groupByScript ::
  "rawOutput list \<Rightarrow> (bytes \<rightharpoonup> rawOutput list) \<Rightarrow> (bytes \<rightharpoonup> rawOutput list)" where
  "groupByScript [] outsByScript = outsByScript"
| "groupByScript (out # outs) outsByScript =
     groupByScript outs
       (outsByScript(ControlProgram out \<mapsto> groupOf outsByScript (ControlProgram out) @ [out]))"

definition annotate :: "CtrlProgram \<Rightarrow> rawOutput \<Rightarrow> accountOutput" where
  "annotate cp out =
     rawOutput.extend out
       \<lparr>AccountID = cp_AccountID cp, keyIndex = cp_KeyIndex cp, change = cp_Change cp\<rparr>"

text \<open>
  The second loop ranges over the map. Go leaves the order of a map range unspecified,
  so the order \<open>ks\<close> in which the scripts are visited is a parameter. The variable
  \<^verbatim>\<open>cp\<close> is declared once, before the loop, and every \<^verbatim>\<open>json.Unmarshal\<close> decodes into
  it: the loop threads it through.
\<close>

fun rangeScripts ::
  "'v lib \<Rightarrow> Wallet \<Rightarrow> (bytes \<rightharpoonup> rawOutput list) \<Rightarrow> bytes list \<Rightarrow> CtrlProgram \<Rightarrow>
   accountOutput list \<Rightarrow> accountOutput list" where
  "rangeScripts L w outsByScript [] cp result = result"
| "rangeScripts L w outsByScript (s # ks) cp result =
     (case DB w (AccountCPKey (Sum256 L s)) of
        None \<Rightarrow> rangeScripts L w outsByScript ks cp result
      | Some bytes \<Rightarrow>
          (case Unmarshal L bytes cp of
             (False, cp') \<Rightarrow> rangeScripts L w outsByScript ks cp' result
           | (True, cp') \<Rightarrow>
               (case DB w (AccountKey (cp_AccountID cp')) of
                  None \<Rightarrow> rangeScripts L w outsByScript ks cp' result
                | Some isExist \<Rightarrow>
                    rangeScripts L w outsByScript ks cp'
                      (result @ map (annotate cp') (groupOf outsByScript s)))))"

definition zeroCtrlProgram :: CtrlProgram where
  "zeroCtrlProgram =
     \<lparr>cp_AccountID = [], cp_KeyIndex = 0, cp_ControlProgram = [], cp_Change = False\<rparr>"

definition loadAccountInfo ::
  "'v lib \<Rightarrow> Wallet \<Rightarrow> bytes list \<Rightarrow> rawOutput list \<Rightarrow> accountOutput list" where
  "loadAccountInfo L w ks outs =
     rangeScripts L w (groupByScript outs Map.empty) ks zeroCtrlProgram []"

text \<open>A visiting order of a map range: every key of the map, once.\<close>

definition range_order :: "(bytes \<rightharpoonup> rawOutput list) \<Rightarrow> bytes list \<Rightarrow> bool" where
  "range_order outsByScript ks = (distinct ks \<and> set ks = dom outsByScript)"

section \<open>Persisted records\<close>

datatype error = EncodeError

definition utxoOf :: "accountOutput \<Rightarrow> UTXO" where
  "utxoOf out =
     \<lparr>u_OutputID = Bytes (OutputID out),
      u_AssetID = Bytes (AssetId (AssetAmount out)),
      u_Amount = Amount (AssetAmount out),
      u_AccountID = AccountID out,
      u_ProgramIndex = keyIndex out,
      u_Program = ControlProgram out,
      u_SourceID = Bytes (sourceID out),
      u_SourcePos = sourcePos out,
      u_RefData = Bytes (refData out),
      u_Change = change out\<rparr>"

text \<open>
  \<^verbatim>\<open>upsertConfirmedAccountOutputs\<close>: the batch is written through a pointer, so the
  records set before a failing \<^verbatim>\<open>json.Marshal\<close> stay in it. The result is the error, if
  any, and the batch.
\<close>

fun upsertConfirmedAccountOutputs ::
  "'v lib \<Rightarrow> accountOutput list \<Rightarrow> Block \<Rightarrow> 'v batch \<Rightarrow> error option \<times> 'v batch" where
  "upsertConfirmedAccountOutputs L [] block batch = (None, batch)"
| "upsertConfirmedAccountOutputs L (out # outs) block batch =
     (let u = utxoOf out in
      case Marshal L u of
        None \<Rightarrow> (Some EncodeError, batch)
      | Some rawUTXO \<Rightarrow>
          upsertConfirmedAccountOutputs L outs block
            (batch @ [Set (AccountUTXOKey (u_OutputID u)) rawUTXO]))"

section \<open>Confirmation and reversal\<close>

text \<open>
  Neither \<^verbatim>\<open>BuildAccountUTXOs\<close> nor \<^verbatim>\<open>ReverseAccountUTXOs\<close> has a return value: what
  a call leaves behind is the batch it wrote to and the line it logged. \<open>None\<close> is a
  panic of the Go runtime (an index out of range).
\<close>

record 'v outcome =
  batch_of :: "'v batch"
  logged :: "string list"

fun deleteAll :: "Hash list \<Rightarrow> 'v batch \<Rightarrow> 'v batch" where
  "deleteAll [] batch = batch"
| "deleteAll (delOutputID # rest) batch =
     deleteAll rest (batch @ [Delete (AccountUTXOKey (Bytes delOutputID))])"

definition BuildAccountUTXOs ::
  "'v lib \<Rightarrow> Wallet \<Rightarrow> bytes list \<Rightarrow> 'v batch \<Rightarrow> Block \<Rightarrow> 'v outcome option" where
  "BuildAccountUTXOs L w ks batch0 b =
     (let delOutputIDs = prevoutDBKeys (Transactions b);
          batch1 = deleteAll delOutputIDs batch0
      in case buildOuts (Transactions b) of
           None \<Rightarrow> None
         | Some outs \<Rightarrow>
             (case upsertConfirmedAccountOutputs L (loadAccountInfo L w ks outs) b batch1 of
                (Some err, batch2) \<Rightarrow>
                  Some \<lparr>batch_of = batch2, logged = [''building new account outputs'']\<rparr>
              | (None, batch2) \<Rightarrow> Some \<lparr>batch_of = batch2, logged = []\<rparr>))"

text \<open>The second loop of \<^verbatim>\<open>ReverseAccountUTXOs\<close>: one delete per result id whose entry
  is an output entry.\<close>

fun reverseDeletes :: "Tx \<Rightarrow> nat \<Rightarrow> TxOutput list \<Rightarrow> 'v batch \<Rightarrow> 'v batch option" where
  "reverseDeletes tx j [] batch = Some batch"
| "reverseDeletes tx j (out # rest) batch =
     (if length (ResultIds tx) \<le> j then None
      else
        (case Entries tx (ResultIds tx ! j) of
           Some (Output resOut) \<Rightarrow>
             reverseDeletes tx (Suc j) rest
               (batch @ [Delete (AccountUTXOKey (Bytes (ResultIds tx ! j)))])
         | _ \<Rightarrow> reverseDeletes tx (Suc j) rest batch))"

fun reverseNew :: "Tx list \<Rightarrow> 'v batch \<Rightarrow> 'v batch option" where
  "reverseNew [] batch = Some batch"
| "reverseNew (tx # txs) batch =
     (case reverseDeletes tx 0 (Outputs tx) batch of
        None \<Rightarrow> None
      | Some batch' \<Rightarrow> reverseNew txs batch')"

definition ReverseAccountUTXOs ::
  "'v lib \<Rightarrow> Wallet \<Rightarrow> bytes list \<Rightarrow> 'v batch \<Rightarrow> Block \<Rightarrow> 'v outcome option" where
  "ReverseAccountUTXOs L w ks batch0 b =
     (let accOuts = loadAccountInfo L w ks (reverseOuts (Transactions b))
      in case upsertConfirmedAccountOutputs L accOuts b batch0 of
           (Some err, batch1) \<Rightarrow>
             Some \<lparr>batch_of = batch1,
                   logged = [''reversing account spent and retire outputs'']\<rparr>
         | (None, batch1) \<Rightarrow>
             map_option (\<lambda>batch2. \<lparr>batch_of = batch2, logged = []\<rparr>)
               (reverseNew (Transactions b) batch1))"

section \<open>The annotated-output projection\<close>







section \<open>Auxiliary definitions\<close>

text \<open>The operations \<^verbatim>\<open>upsertConfirmedAccountOutputs\<close> appends to the batch: one set per
  output, up to the first record that fails to encode.\<close>

fun upsertOps :: "'v lib \<Rightarrow> accountOutput list \<Rightarrow> 'v op list" where
  "upsertOps L [] = []"
| "upsertOps L (out # outs) =
     (case Marshal L (utxoOf out) of
        None \<Rightarrow> []
      | Some rawUTXO \<Rightarrow> Set (AccountUTXOKey (Bytes (OutputID out))) rawUTXO # upsertOps L outs)"

text \<open>One iteration of the range loop of \<^verbatim>\<open>loadAccountInfo\<close>: the \<^verbatim>\<open>cp\<close> it leaves and
  the outputs it appends.\<close>

definition visit ::
  "'v lib \<Rightarrow> Wallet \<Rightarrow> (bytes \<rightharpoonup> rawOutput list) \<Rightarrow> bytes \<Rightarrow> CtrlProgram \<Rightarrow>
   CtrlProgram \<times> accountOutput list" where
  "visit L w outsByScript s cp =
     (case DB w (AccountCPKey (Sum256 L s)) of
        None \<Rightarrow> (cp, [])
      | Some bytes \<Rightarrow>
          (case Unmarshal L bytes cp of
             (False, cp') \<Rightarrow> (cp', [])
           | (True, cp') \<Rightarrow>
               (case DB w (AccountKey (cp_AccountID cp')) of
                  None \<Rightarrow> (cp', [])
                | Some isExist \<Rightarrow> (cp', map (annotate cp') (groupOf outsByScript s)))))"

text \<open>The key an operation of the batch touches.\<close>

fun key_of :: "'v op \<Rightarrow> dbkey" where
  "key_of (Set k v) = k"
| "key_of (Delete k) = k"

text \<open>Whether the persisted record of an output encodes.\<close>

definition encodes :: "'v lib \<Rightarrow> accountOutput \<Rightarrow> bool" where
  "encodes L out = (Marshal L (utxoOf out) \<noteq> None)"

text \<open>The delete \<^verbatim>\<open>(*batch).Delete(account.AccountUTXOKey(string(id.Bytes())))\<close>.\<close>

definition deleteOp :: "Hash \<Rightarrow> 'v op" where
  "deleteOp i = Delete (AccountUTXOKey (Bytes i))"

text \<open>A script resolves when its registry value is present and decodes, whatever \<^verbatim>\<open>cp\<close>
  held before, to a record whose account exists.\<close>

definition resolves :: "'v lib \<Rightarrow> Wallet \<Rightarrow> bytes \<Rightarrow> bool" where
  "resolves L w s =
     (\<exists>bytes. DB w (AccountCPKey (Sum256 L s)) = Some bytes \<and>
        (\<forall>cp. fst (Unmarshal L bytes cp) \<and>
              DB w (AccountKey (cp_AccountID (snd (Unmarshal L bytes cp)))) \<noteq> None))"


text \<open>
  A registry value decodes without history when \<^verbatim>\<open>json.Unmarshal\<close> gives the same
  result whatever \<^verbatim>\<open>cp\<close> held before: the document sets every field, as the records
  \<^verbatim>\<open>json.Marshal\<close> writes for a \<^verbatim>\<open>CtrlProgram\<close> do. \<open>ownerOf\<close> is the record such a
  value decodes to, and \<open>resolved\<close> the annotated outputs of a pass over a registry all of
  whose values decode without history.
\<close>

definition history_free :: "'v lib \<Rightarrow> bytes \<Rightarrow> bool" where
  "history_free L bytes = (\<forall>cp cp'. Unmarshal L bytes cp = Unmarshal L bytes cp')"

definition complete_registry :: "'v lib \<Rightarrow> Wallet \<Rightarrow> bool" where
  "complete_registry L w =
     (\<forall>s bytes. DB w (AccountCPKey (Sum256 L s)) = Some bytes \<longrightarrow> history_free L bytes)"

definition ownerOf :: "'v lib \<Rightarrow> bytes \<Rightarrow> CtrlProgram" where
  "ownerOf L bytes = snd (Unmarshal L bytes zeroCtrlProgram)"

definition resolved :: "'v lib \<Rightarrow> Wallet \<Rightarrow> rawOutput list \<Rightarrow> accountOutput set" where
  "resolved L w outs =
     {annotate (ownerOf L bytes) out | out bytes.
        out \<in> set outs \<and>
        DB w (AccountCPKey (Sum256 L (ControlProgram out))) = Some bytes \<and>
        fst (Unmarshal L bytes zeroCtrlProgram) \<and>
        DB w (AccountKey (cp_AccountID (ownerOf L bytes))) \<noteq> None}"

text \<open>A batch that touches keys of the UTXO index only.\<close>

definition utxo_keys :: "'v batch \<Rightarrow> bool" where
  "utxo_keys ops = (\<forall>x \<in> set ops. \<exists>i. key_of x = AccountUTXOKey i)"

section \<open>An example ledger\<close>

text \<open>
  The concrete data the theorems are instantiated at. Script \<open>S1\<close> belongs to account
  \<open>A1\<close> and script \<open>S3\<close> to account \<open>A3\<close>; script \<open>S2\<close> is foreign (no registry
  entry); the registry value of \<open>Sbad\<close> does not decode; the registry value of \<open>Sx\<close>
  is a record of account \<open>A1\<close> that holds no \<open>Change\<close> field. \<open>demo_Unmarshal\<close> is
  encoding/json on the documents the example registry stores: a full record sets every
  field, the record without \<open>Change\<close> sets the three fields it holds and leaves
  \<open>Change\<close> as it was, and other text is rejected.
\<close>

definition demo_cpdoc1 :: bytes where
  \<open>demo_cpdoc1 = ''{"AccountID":"A1","KeyIndex":1,"ControlProgram":"UzE=","Change":false}''\<close>

definition demo_cpdoc3 :: bytes where
  \<open>demo_cpdoc3 = ''{"AccountID":"A3","KeyIndex":7,"ControlProgram":"UzM=","Change":true}''\<close>

definition demo_cpdocx :: bytes where
  \<open>demo_cpdocx = ''{"AccountID":"A1","KeyIndex":2,"ControlProgram":"U3g="}''\<close>

definition demo_cp1 :: CtrlProgram where
  "demo_cp1 =
     \<lparr>cp_AccountID = ''A1'', cp_KeyIndex = 1, cp_ControlProgram = ''S1'', cp_Change = False\<rparr>"

definition demo_cp3 :: CtrlProgram where
  "demo_cp3 =
     \<lparr>cp_AccountID = ''A3'', cp_KeyIndex = 7, cp_ControlProgram = ''S3'', cp_Change = True\<rparr>"

definition demo_cpx :: "bool \<Rightarrow> CtrlProgram" where
  "demo_cpx c =
     \<lparr>cp_AccountID = ''A1'', cp_KeyIndex = 2, cp_ControlProgram = ''Sx'', cp_Change = c\<rparr>"

definition demo_Unmarshal :: "bytes \<Rightarrow> CtrlProgram \<Rightarrow> bool \<times> CtrlProgram" where
  "demo_Unmarshal bytes cp =
     (if bytes = demo_cpdoc1 then (True, demo_cp1)
      else if bytes = demo_cpdoc3 then (True, demo_cp3)
      else if bytes = demo_cpdocx then (True, demo_cpx (cp_Change cp))
      else (False, cp))"

definition demo_lib :: "UTXO lib" where
  "demo_lib = \<lparr>Sum256 = (\<lambda>s. CHR ''#'' # s), Unmarshal = demo_Unmarshal, Marshal = Some\<rparr>"

definition demo_wallet :: Wallet where
  "demo_wallet =
     \<lparr>DB = [AccountCPKey ''#S1'' \<mapsto> demo_cpdoc1,
             AccountCPKey ''#S3'' \<mapsto> demo_cpdoc3,
             AccountCPKey ''#Sbad'' \<mapsto> ''not json'',
             AccountCPKey ''#Sx'' \<mapsto> demo_cpdocx,
             AccountKey ''A1'' \<mapsto> ''account A1'',
             AccountKey ''A3'' \<mapsto> ''account A3'']\<rparr>"

definition demo_raw :: "Hash \<Rightarrow> bytes \<Rightarrow> Hash \<Rightarrow> 32 word \<Rightarrow> rawOutput" where
  "demo_raw i s t j =
     \<lparr>OutputID = i, AssetAmount = \<lparr>AssetId = ''X'', Amount = 10\<rparr>, ControlProgram = s,
      txHash = t, outputIndex = j, sourceID = ''M'', sourcePos = 0, refData = ''D''\<rparr>"

definition demo_outs :: "rawOutput list" where
  "demo_outs =
     [demo_raw ''O1'' ''S1'' ''T1'' 0, demo_raw ''O2'' ''S2'' ''T1'' 1,
      demo_raw ''O3'' ''S1'' ''T1'' 2, demo_raw ''O4'' ''Sbad'' ''T1'' 3]"

definition demo_entry :: "bytes \<Rightarrow> Entry" where
  "demo_entry s =
     Output \<lparr>Source = \<lparr>Ref = ''M'', Value = \<lparr>AssetId = ''X'', Amount = 10\<rparr>, Position = 0\<rparr>,
             out_ControlProgram = \<lparr>VmVersion = 1, Code = s\<rparr>,
             Data = ''D''\<rparr>"

definition demo_txout :: "bytes \<Rightarrow> TxOutput" where
  "demo_txout s =
     \<lparr>to_AssetAmount = \<lparr>AssetId = ''X'', Amount = 10\<rparr>, to_ControlProgram = s,
      to_ReferenceData = ''{}''\<rparr>"

text \<open>
  Block 1 has an issuance input and creates \<open>O1\<close> (script \<open>S1\<close>), \<open>O2\<close> (script
  \<open>S2\<close>) and the retirement \<open>R1\<close>, whose script is the tracked \<open>S1\<close>. Block 2 spends
  \<open>O1\<close> and \<open>O2\<close> and creates \<open>O3\<close> (script \<open>S1\<close>).
\<close>

definition demo_block1 :: Block where
  "demo_block1 =
     \<lparr>Transactions =
        [\<lparr>ID = ''T1'',
          Entries = [''I1'' \<mapsto> Issuance, ''O1'' \<mapsto> demo_entry ''S1'',
                     ''O2'' \<mapsto> demo_entry ''S2'', ''R1'' \<mapsto> Retirement],
          InputIDs = [''I1''],
          ResultIds = [''O1'', ''O2'', ''R1''],
          Outputs = [demo_txout ''S1'', demo_txout ''S2'', demo_txout ''S1'']\<rparr>]\<rparr>"

definition demo_block2 :: Block where
  "demo_block2 =
     \<lparr>Transactions =
        [\<lparr>ID = ''T2'',
          Entries = [''SP1'' \<mapsto> Spend \<lparr>SpentOutputId = ''O1''\<rparr>,
                     ''SP2'' \<mapsto> Spend \<lparr>SpentOutputId = ''O2''\<rparr>,
                     ''O1'' \<mapsto> demo_entry ''S1'', ''O2'' \<mapsto> demo_entry ''S2'',
                     ''O3'' \<mapsto> demo_entry ''S1''],
          InputIDs = [''SP1'', ''SP2''],
          ResultIds = [''O3''],
          Outputs = [demo_txout ''S1'']\<rparr>]\<rparr>"

definition demo_utxo :: "Hash \<Rightarrow> UTXO" where
  "demo_utxo i =
     \<lparr>u_OutputID = i, u_AssetID = ''X'', u_Amount = 10, u_AccountID = ''A1'',
      u_ProgramIndex = 1, u_Program = ''S1'', u_SourceID = ''M'', u_SourcePos = 0,
      u_RefData = ''D'', u_Change = False\<rparr>"

text \<open>
  Block 3 spends \<open>O1\<close> and creates \<open>O5\<close>, both under script \<open>S1\<close>. Block 6 creates
  \<open>O8\<close> under script \<open>S3\<close> and \<open>O7\<close> under script \<open>Sx\<close>.
\<close>

definition demo_block3 :: Block where
  "demo_block3 =
     \<lparr>Transactions =
        [\<lparr>ID = ''T3'',
          Entries = [''SP1'' \<mapsto> Spend \<lparr>SpentOutputId = ''O1''\<rparr>,
                     ''O1'' \<mapsto> demo_entry ''S1'', ''O5'' \<mapsto> demo_entry ''S1''],
          InputIDs = [''SP1''],
          ResultIds = [''O5''],
          Outputs = [demo_txout ''S1'']\<rparr>]\<rparr>"

definition demo_block6 :: Block where
  "demo_block6 =
     \<lparr>Transactions =
        [\<lparr>ID = ''T7'',
          Entries = [''O8'' \<mapsto> demo_entry ''S3'', ''O7'' \<mapsto> demo_entry ''Sx''],
          InputIDs = [],
          ResultIds = [''O8'', ''O7''],
          Outputs = [demo_txout ''S3'', demo_txout ''Sx'']\<rparr>]\<rparr>"






section \<open>Lemmas about the loops\<close>

lemma deleteAll_eq:
  "deleteAll ids batch = batch @ map (\<lambda>i. Delete (AccountUTXOKey (Bytes i))) ids"
  by (induction ids arbitrary: batch) simp_all

lemma upsertOps_sound:
  "x \<in> set (upsertOps L outs) \<Longrightarrow>
     \<exists>out \<in> set outs. \<exists>v. Marshal L (utxoOf out) = Some v \<and>
        x = Set (AccountUTXOKey (Bytes (OutputID out))) v"
  by (induction outs) (auto split: option.splits)

lemma upsertOps_no_Delete: "Delete k \<notin> set (upsertOps L outs)"
  by (induction outs) (auto split: option.splits)

lemma annotate_raw [simp]:
  "OutputID (annotate cp out) = OutputID out"
  "AssetAmount (annotate cp out) = AssetAmount out"
  "ControlProgram (annotate cp out) = ControlProgram out"
  "sourceID (annotate cp out) = sourceID out"
  "sourcePos (annotate cp out) = sourcePos out"
  "refData (annotate cp out) = refData out"
  "rawOutput.truncate (annotate cp out) = out"
  by (simp_all add: annotate_def rawOutput.extend_def rawOutput.truncate_def)

lemma annotate_meta [simp]:
  "AccountID (annotate cp out) = cp_AccountID cp"
  "keyIndex (annotate cp out) = cp_KeyIndex cp"
  "change (annotate cp out) = cp_Change cp"
  by (simp_all add: annotate_def rawOutput.extend_def)

lemma filter_script_empty:
  "s \<notin> ControlProgram ` set outs \<Longrightarrow> filter (\<lambda>out. ControlProgram out = s) outs = []"
  by (auto simp: filter_empty_conv)

lemma groupByScript_eq:
  "groupByScript outs m s =
     (if s \<in> ControlProgram ` set outs
      then Some (groupOf m s @ filter (\<lambda>out. ControlProgram out = s) outs)
      else m s)"
proof (induction outs arbitrary: m)
  case Nil
  then show ?case by simp
next
  case (Cons out outs)
  show ?case
    by (simp add: Cons.IH groupOf_def filter_script_empty)
qed

lemma groupOf_groupByScript:
  "groupOf (groupByScript outs Map.empty) s = filter (\<lambda>out. ControlProgram out = s) outs"
  by (simp add: groupOf_def groupByScript_eq filter_script_empty)

lemma rangeScripts_visit:
  "rangeScripts L w m (s # ks) cp result =
     rangeScripts L w m ks (fst (visit L w m s cp)) (result @ snd (visit L w m s cp))"
  by (simp add: visit_def split: option.splits prod.splits bool.splits)

lemma rangeScripts_result:
  "rangeScripts L w m ks cp result = result @ rangeScripts L w m ks cp []"
proof (induction ks arbitrary: cp result)
  case Nil
  then show ?case by simp
next
  case (Cons s ks)
  show ?case
    unfolding rangeScripts_visit
    using Cons.IH [of _ "result @ snd (visit L w m s cp)"]
          Cons.IH [of _ "[] @ snd (visit L w m s cp)"]
    by simp
qed

lemma rangeScripts_Cons:
  "rangeScripts L w m (s # ks) cp [] =
     snd (visit L w m s cp) @ rangeScripts L w m ks (fst (visit L w m s cp)) []"
  unfolding rangeScripts_visit
  using rangeScripts_result [of L w m ks "fst (visit L w m s cp)" "snd (visit L w m s cp)"]
  by simp

lemma visit_sound:
  assumes "a \<in> set (snd (visit L w m s cp))"
  shows "\<exists>bytes cp'. DB w (AccountCPKey (Sum256 L s)) = Some bytes \<and>
           Unmarshal L bytes cp = (True, cp') \<and>
           DB w (AccountKey (cp_AccountID cp')) \<noteq> None \<and>
           a \<in> annotate cp' ` set (groupOf m s)"
  using assms by (auto simp: visit_def split: option.splits prod.splits bool.splits)

lemma visit_meta:
  assumes "a1 \<in> set (snd (visit L w m s cp))" and "a2 \<in> set (snd (visit L w m s cp))"
  shows "AccountID a1 = AccountID a2 \<and> keyIndex a1 = keyIndex a2 \<and> change a1 = change a2"
  using assms by (auto simp: visit_def split: option.splits prod.splits bool.splits)

lemma visit_script:
  assumes "a \<in> set (snd (visit L w (groupByScript outs Map.empty) s cp))"
  shows "ControlProgram a = s \<and> rawOutput.truncate a \<in> set outs"
  using visit_sound [OF assms] by (auto simp: groupOf_groupByScript)

lemma rangeScripts_script:
  assumes "a \<in> set (rangeScripts L w (groupByScript outs Map.empty) ks cp [])"
  shows "ControlProgram a \<in> set ks \<and> rawOutput.truncate a \<in> set outs"
  using assms
proof (induction ks arbitrary: cp)
  case Nil
  then show ?case by simp
next
  case (Cons s ks)
  then show ?case
    unfolding rangeScripts_Cons using visit_script by fastforce
qed

lemma rangeScripts_sound:
  assumes "a \<in> set (rangeScripts L w m ks cp [])"
  shows "\<exists>s \<in> set ks. \<exists>bytes cp0 cp'. DB w (AccountCPKey (Sum256 L s)) = Some bytes \<and>
           Unmarshal L bytes cp0 = (True, cp') \<and>
           DB w (AccountKey (cp_AccountID cp')) \<noteq> None \<and>
           a \<in> annotate cp' ` set (groupOf m s)"
  using assms
proof (induction ks arbitrary: cp)
  case Nil
  then show ?case by simp
next
  case (Cons s ks)
  from Cons.prems consider
      (here) "a \<in> set (snd (visit L w m s cp))"
    | (later) "a \<in> set (rangeScripts L w m ks (fst (visit L w m s cp)) [])"
    unfolding rangeScripts_Cons by auto
  then show ?case
  proof cases
    case here
    from visit_sound [OF here] show ?thesis by auto
  next
    case later
    from Cons.IH [OF later] show ?thesis by auto
  qed
qed

lemma rangeScripts_meta:
  assumes "distinct ks"
    and "a1 \<in> set (rangeScripts L w (groupByScript outs Map.empty) ks cp [])"
    and "a2 \<in> set (rangeScripts L w (groupByScript outs Map.empty) ks cp [])"
    and "ControlProgram a1 = ControlProgram a2"
  shows "AccountID a1 = AccountID a2 \<and> keyIndex a1 = keyIndex a2 \<and> change a1 = change a2"
  using assms
proof (induction ks arbitrary: cp)
  case Nil
  then show ?case by simp
next
  case (Cons s ks)
  let ?m = "groupByScript outs Map.empty"
  let ?here = "set (snd (visit L w ?m s cp))"
  let ?later = "set (rangeScripts L w ?m ks (fst (visit L w ?m s cp)) [])"
  have split: "a1 \<in> ?here \<or> a1 \<in> ?later" "a2 \<in> ?here \<or> a2 \<in> ?later"
    using Cons.prems(2,3) unfolding rangeScripts_Cons by auto
  have here: "ControlProgram a = s" if "a \<in> ?here" for a
    using visit_script that by blast
  have later: "ControlProgram a \<noteq> s" if "a \<in> ?later" for a
    using rangeScripts_script [OF that] Cons.prems(1) by auto
  show ?case
  proof (cases "a1 \<in> ?here")
    case True
    then have "a2 \<in> ?here"
      using split(2) here later Cons.prems(4) by metis
    with True show ?thesis by (rule visit_meta)
  next
    case False
    then have l1: "a1 \<in> ?later" using split(1) by simp
    then have l2: "a2 \<in> ?later"
      using split(2) here later Cons.prems(4) by metis
    from Cons.prems(1) have "distinct ks" by simp
    from Cons.IH [OF this l1 l2 Cons.prems(4)] show ?thesis .
  qed
qed

lemma dom_groupByScript:
  "dom (groupByScript outs Map.empty) = ControlProgram ` set outs"
  by (auto simp: groupByScript_eq dom_def)

lemma buildOutputs_sound:
  assumes "buildOutputs tx j outputs = Some outs" and "out \<in> set outs"
  shows "\<exists>i < length outputs. j + i < length (ResultIds tx) \<and>
           OutputID out = ResultIds tx ! (j + i) \<and>
           ControlProgram out = to_ControlProgram (outputs ! i) \<and>
           (\<exists>resOut. Entries tx (ResultIds tx ! (j + i)) = Some (Output resOut))"
  using assms
proof (induction outputs arbitrary: j outs)
  case Nil
  then show ?case by simp
next
  case (Cons x outputs)
  from Cons.prems(1) have inrange: "j < length (ResultIds tx)"
    by (simp split: if_splits)
  show ?case
  proof (cases "\<exists>resOut. Entries tx (ResultIds tx ! j) = Some (Output resOut)")
    case True
    then obtain resOut where e: "Entries tx (ResultIds tx ! j) = Some (Output resOut)" ..
    with Cons.prems(1) inrange obtain rest where
      rest: "buildOutputs tx (Suc j) outputs = Some rest" and
      outs: "outs = \<lparr>OutputID = ResultIds tx ! j,
                     AssetAmount = to_AssetAmount x,
                     ControlProgram = to_ControlProgram x,
                     txHash = ID tx,
                     outputIndex = of_nat j,
                     sourceID = Ref (Source resOut),
                     sourcePos = Position (Source resOut),
                     refData = Data resOut\<rparr> # rest"
      by auto
    show ?thesis
    proof (cases "out \<in> set rest")
      case True
      from Cons.IH [OF rest True] obtain i where
        "i < length outputs" "Suc j + i < length (ResultIds tx)"
        "OutputID out = ResultIds tx ! (Suc j + i)"
        "ControlProgram out = to_ControlProgram (outputs ! i)"
        "\<exists>resOut. Entries tx (ResultIds tx ! (Suc j + i)) = Some (Output resOut)"
        by blast
      then show ?thesis
        by (intro exI [of _ "Suc i"]) simp
    next
      case False
      with Cons.prems(2) outs e inrange show ?thesis
        by (intro exI [of _ 0]) auto
    qed
  next
    case False
    with Cons.prems(1) inrange have rest: "buildOutputs tx (Suc j) outputs = Some outs"
      by (auto split: option.splits Entry.splits)
    from Cons.IH [OF rest Cons.prems(2)] obtain i where
      "i < length outputs" "Suc j + i < length (ResultIds tx)"
      "OutputID out = ResultIds tx ! (Suc j + i)"
      "ControlProgram out = to_ControlProgram (outputs ! i)"
      "\<exists>resOut. Entries tx (ResultIds tx ! (Suc j + i)) = Some (Output resOut)"
      by blast
    then show ?thesis
      by (intro exI [of _ "Suc i"]) simp
  qed
qed

lemma buildOuts_sound:
  assumes "buildOuts txs = Some outs" and "out \<in> set outs"
  shows "\<exists>tx \<in> set txs. \<exists>j < length (Outputs tx).
           ResultIds tx ! j = OutputID out \<and>
           to_ControlProgram (Outputs tx ! j) = ControlProgram out \<and>
           (\<exists>resOut. Entries tx (OutputID out) = Some (Output resOut))"
  using assms
proof (induction txs arbitrary: outs)
  case Nil
  then show ?case by simp
next
  case (Cons tx txs)
  from Cons.prems(1) obtain here later where
    here: "buildOutputs tx 0 (Outputs tx) = Some here" and
    later: "buildOuts txs = Some later" and outs: "outs = here @ later"
    by (auto split: option.splits)
  show ?case
  proof (cases "out \<in> set here")
    case True
    from buildOutputs_sound [OF here True] show ?thesis by auto
  next
    case False
    with Cons.prems(2) outs have "out \<in> set later" by simp
    from Cons.IH [OF later this] show ?thesis by auto
  qed
qed

lemma reverseDeletes_eq:
  "reverseDeletes tx j outputs batch =
     map_option (\<lambda>outs. batch @ map (\<lambda>out. deleteOp (OutputID out)) outs)
       (buildOutputs tx j outputs)"
proof (induction outputs arbitrary: j batch)
  case Nil
  then show ?case by simp
next
  case (Cons x outputs)
  show ?case
    by (simp add: Cons.IH deleteOp_def option.map_comp comp_def
        split: option.splits Entry.splits)
qed

lemma reverseNew_eq:
  "reverseNew txs batch =
     map_option (\<lambda>outs. batch @ map (\<lambda>out. deleteOp (OutputID out)) outs) (buildOuts txs)"
proof (induction txs arbitrary: batch)
  case Nil
  then show ?case by simp
next
  case (Cons tx txs)
  show ?case
    by (simp add: Cons.IH reverseDeletes_eq option.map_comp comp_def split: option.splits)
qed

lemma prevoutInputs_complete:
  assumes "inpID \<in> set inputs" and "Entries tx inpID = Some (Spend sp)"
  shows "SpentOutputId sp \<in> set (prevoutInputs tx inputs)"
  using assms by (induction inputs) (auto simp: tx_Spend_def split: sum.splits)

lemma prevoutDBKeys_complete:
  assumes "tx \<in> set txs" and "inpID \<in> set (InputIDs tx)"
    and "Entries tx inpID = Some (Spend sp)"
  shows "SpentOutputId sp \<in> set (prevoutDBKeys txs)"
  using assms by (induction txs) (auto simp: prevoutInputs_complete)

lemma upsert_eq:
  "upsertConfirmedAccountOutputs L outs b batch =
     (if list_all (encodes L) outs then None else Some EncodeError, batch @ upsertOps L outs)"
  by (induction outs arbitrary: batch)
     (simp_all add: encodes_def Let_def utxoOf_def split: option.splits)

lemma Build_eq:
  "BuildAccountUTXOs L w ks batch0 b =
     (case buildOuts (Transactions b) of
        None \<Rightarrow> None
      | Some outs \<Rightarrow>
          Some \<lparr>batch_of = batch0 @ map deleteOp (prevoutDBKeys (Transactions b)) @
                            upsertOps L (loadAccountInfo L w ks outs),
                 logged = (if list_all (encodes L) (loadAccountInfo L w ks outs) then []
                           else [''building new account outputs''])\<rparr>)"
  by (simp add: BuildAccountUTXOs_def upsert_eq deleteAll_eq deleteOp_def split: option.splits)

lemma Reverse_eq:
  "ReverseAccountUTXOs L w ks batch0 b =
     (let accOuts = loadAccountInfo L w ks (reverseOuts (Transactions b)) in
      if list_all (encodes L) accOuts
      then map_option
             (\<lambda>outs. \<lparr>batch_of = batch0 @ upsertOps L accOuts @
                                 map (\<lambda>out. deleteOp (OutputID out)) outs,
                      logged = []\<rparr>)
             (buildOuts (Transactions b))
      else Some \<lparr>batch_of = batch0 @ upsertOps L accOuts,
                  logged = [''reversing account spent and retire outputs'']\<rparr>)"
  by (simp add: ReverseAccountUTXOs_def upsert_eq reverseNew_eq Let_def option.map_comp comp_def)

lemma visit_resolves:
  assumes "resolves L w s"
  shows "rawOutput.truncate ` set (snd (visit L w m s cp)) = set (groupOf m s)"
proof -
  from assms obtain bytes where
    db: "DB w (AccountCPKey (Sum256 L s)) = Some bytes" and
    ok: "fst (Unmarshal L bytes cp)" and
    acc: "DB w (AccountKey (cp_AccountID (snd (Unmarshal L bytes cp)))) \<noteq> None"
    by (auto simp: resolves_def)
  then have "snd (visit L w m s cp) = map (annotate (snd (Unmarshal L bytes cp))) (groupOf m s)"
    by (auto simp: visit_def split: prod.splits bool.splits)
  then show ?thesis
    by (simp add: image_image)
qed

lemma rangeScripts_complete:
  assumes "s \<in> set ks" and "resolves L w s" and "out \<in> set (groupOf m s)"
  shows "out \<in> rawOutput.truncate ` set (rangeScripts L w m ks cp [])"
  using assms(1)
proof (induction ks arbitrary: cp)
  case Nil
  then show ?case by simp
next
  case (Cons s' ks)
  show ?case
  proof (cases "s' = s")
    case True
    with visit_resolves [OF assms(2), of m cp] assms(3)
    show ?thesis
      unfolding rangeScripts_Cons by auto
  next
    case False
    with Cons.prems have "s \<in> set ks" by simp
    from Cons.IH [OF this] show ?thesis
      unfolding rangeScripts_Cons by auto
  qed
qed


lemma key_of_deleteOp [simp]: "key_of (deleteOp i) = AccountUTXOKey (Bytes i)"
  by (simp add: deleteOp_def)


text \<open>Neither call panics when every transaction has a result id for each of its outputs.\<close>

lemma buildOutputs_returns:
  assumes "j + length outputs \<le> length (ResultIds tx)"
  shows "\<exists>outs. buildOutputs tx j outputs = Some outs"
  using assms
proof (induction outputs arbitrary: j)
  case Nil
  then show ?case by simp
next
  case (Cons x outputs)
  then have "\<exists>outs. buildOutputs tx (Suc j) outputs = Some outs"
    by (intro Cons.IH) simp
  with Cons.prems show ?case
    by (auto split: option.splits Entry.splits)
qed

lemma buildOuts_returns:
  assumes "\<forall>tx \<in> set txs. length (Outputs tx) \<le> length (ResultIds tx)"
  shows "\<exists>outs. buildOuts txs = Some outs"
  using assms
proof (induction txs)
  case Nil
  then show ?case by simp
next
  case (Cons tx txs)
  then obtain later where "buildOuts txs = Some later" by auto
  moreover from Cons.prems obtain here where "buildOutputs tx 0 (Outputs tx) = Some here"
    using buildOutputs_returns [of 0 "Outputs tx" tx] by auto
  ultimately show ?case by simp
qed

lemma BuildAccountUTXOs_returns:
  assumes "\<forall>tx \<in> set (Transactions b). length (Outputs tx) \<le> length (ResultIds tx)"
  shows "\<exists>r. BuildAccountUTXOs L w ks batch0 b = Some r"
  using buildOuts_returns [OF assms] by (auto simp: Build_eq)

lemma ReverseAccountUTXOs_returns:
  assumes "\<forall>tx \<in> set (Transactions b). length (Outputs tx) \<le> length (ResultIds tx)"
  shows "\<exists>r. ReverseAccountUTXOs L w ks batch0 b = Some r"
  using buildOuts_returns [OF assms] by (auto simp: Reverse_eq Let_def)

section \<open>The mutation batch\<close>

lemma commit_append: "commit (xs @ ys) idx = commit ys (commit xs idx)"
  by (simp add: commit_def)

lemma commit_snoc: "commit (xs @ [x]) idx = apply_op (commit xs idx) x"
  by (simp add: commit_def)

lemma apply_op_other: "k \<noteq> key_of x \<Longrightarrow> apply_op idx x k = idx k"
  by (cases x) simp_all

lemma apply_op_same: "apply_op idx x (key_of x) = apply_op idx' x (key_of x)"
  by (cases x) simp_all

lemma commit_untouched:
  "k \<notin> key_of ` set xs \<Longrightarrow> commit xs idx k = idx k"
proof (induction xs rule: rev_induct)
  case Nil
  then show ?case by (simp add: commit_def)
next
  case (snoc x xs)
  then show ?case by (simp add: commit_snoc apply_op_other)
qed

lemma commit_agree:
  assumes "x \<in> set xs" and "key_of x = k"
    and "\<And>y. y \<in> set xs \<Longrightarrow> key_of y = k \<Longrightarrow> y = x"
  shows "commit xs idx k = apply_op Map.empty x k"
  using assms
proof (induction xs rule: rev_induct)
  case Nil
  then show ?case by simp
next
  case (snoc y ys)
  show ?case
  proof (cases "key_of y = k")
    case True
    with snoc.prems(3) have "y = x" by simp
    with True show ?thesis
      using apply_op_same [of "commit ys idx" x Map.empty]
      by (auto simp: commit_snoc)
  next
    case False
    with snoc.prems(1,2) have in_ys: "x \<in> set ys" by auto
    have "commit ys idx k = apply_op Map.empty x k"
      using snoc.IH [OF in_ys snoc.prems(2)] snoc.prems(3) by simp
    with False show ?thesis
      by (simp add: commit_snoc apply_op_other [of k y])
  qed
qed

lemma commit_touched:
  "k \<in> key_of ` set xs \<Longrightarrow> commit xs idx k = commit xs idx' k"
proof (induction xs rule: rev_induct)
  case Nil
  then show ?case by simp
next
  case (snoc x xs)
  show ?case
  proof (cases "k = key_of x")
    case True
    then show ?thesis
      using apply_op_same [of "commit xs idx" x "commit xs idx'"]
      by (simp add: commit_snoc)
  next
    case False
    with snoc have "commit xs idx k = commit xs idx' k" by auto
    with False show ?thesis
      by (simp add: commit_snoc apply_op_other)
  qed
qed

lemma commit_idem: "commit xs (commit xs idx) = commit xs idx"
proof
  fix k
  show "commit xs (commit xs idx) k = commit xs idx k"
  proof (cases "k \<in> key_of ` set xs")
    case True
    then show ?thesis by (rule commit_touched)
  next
    case False
    then show ?thesis by (simp add: commit_untouched)
  qed
qed

lemma commit_deletes:
  assumes "i \<in> set ids"
  shows "commit (map deleteOp ids) idx (AccountUTXOKey (Bytes i)) = None"
proof -
  have "commit (map deleteOp ids) idx (AccountUTXOKey (Bytes i)) =
          apply_op Map.empty (deleteOp i) (AccountUTXOKey (Bytes i))"
  proof (rule commit_agree)
    show "deleteOp i \<in> set (map deleteOp ids)"
      using assms by simp
    show "key_of (deleteOp i) = AccountUTXOKey (Bytes i)"
      by simp
    fix y :: "'a op"
    assume "y \<in> set (map deleteOp ids)" and "key_of y = AccountUTXOKey (Bytes i)"
    then show "y = deleteOp i"
      by (auto simp: deleteOp_def)
  qed
  then show ?thesis
    by (simp add: deleteOp_def)
qed

section \<open>The index and the registry in one database\<close>

text \<open>
  The wallet's database holds the registry and the index under disjoint key prefixes.
  A batch written by either call touches keys of the index only, so committing it to
  the wallet's own database changes nothing a call reads: a later call sees the
  registry the earlier one saw. The theorems below therefore take the wallet (the
  registry) and the index as two arguments.
\<close>

lemma utxo_keys_append [simp]: "utxo_keys (xs @ ys) = (utxo_keys xs \<and> utxo_keys ys)"
  by (auto simp: utxo_keys_def)

lemma utxo_keys_deletes [simp]: "utxo_keys (map (\<lambda>x. deleteOp (f x)) xs)"
  by (simp add: utxo_keys_def)

lemma utxo_keys_upsertOps [simp]: "utxo_keys (upsertOps L accOuts)"
  using upsertOps_sound [of _ L accOuts] by (fastforce simp: utxo_keys_def)

lemma Build_utxo_keys:
  assumes "BuildAccountUTXOs L w ks batch0 b = Some r" and "utxo_keys batch0"
  shows "utxo_keys (batch_of r)"
  using assms by (auto simp: Build_eq split: option.splits)

lemma Reverse_utxo_keys:
  assumes "ReverseAccountUTXOs L w ks batch0 b = Some r" and "utxo_keys batch0"
  shows "utxo_keys (batch_of r)"
  using assms by (auto simp: Reverse_eq Let_def split: if_splits)

lemma commit_registry:
  assumes "utxo_keys ops"
  shows "commit ops D (AccountCPKey h) = D (AccountCPKey h)"
    and "commit ops D (AccountKey a) = D (AccountKey a)"
proof -
  have "AccountCPKey h \<notin> key_of ` set ops" "AccountKey a \<notin> key_of ` set ops"
    using assms by (fastforce simp: utxo_keys_def)+
  then show "commit ops D (AccountCPKey h) = D (AccountCPKey h)"
    and "commit ops D (AccountKey a) = D (AccountKey a)"
    by (simp_all add: commit_untouched)
qed

lemma rangeScripts_registry:
  assumes "\<And>h. DB w' (AccountCPKey h) = DB w (AccountCPKey h)"
    and "\<And>a. DB w' (AccountKey a) = DB w (AccountKey a)"
  shows "rangeScripts L w' m ks cp res = rangeScripts L w m ks cp res"
  by (induction ks arbitrary: cp res)
     (simp_all add: assms split: option.splits prod.splits bool.splits)

lemma loadAccountInfo_after_commit:
  fixes L :: "bytes lib"
  assumes "utxo_keys ops"
  shows "loadAccountInfo L (w\<lparr>DB := commit ops (DB w)\<rparr>) ks outs = loadAccountInfo L w ks outs"
  unfolding loadAccountInfo_def
  by (rule rangeScripts_registry) (simp_all add: commit_registry [OF assms])

lemma Build_after_commit:
  fixes L :: "bytes lib"
  assumes "utxo_keys ops"
  shows "BuildAccountUTXOs L (w\<lparr>DB := commit ops (DB w)\<rparr>) ks batch0 b =
         BuildAccountUTXOs L w ks batch0 b"
  by (simp add: Build_eq loadAccountInfo_after_commit [OF assms] cong: option.case_cong)

lemma Reverse_after_commit:
  fixes L :: "bytes lib"
  assumes "utxo_keys ops"
  shows "ReverseAccountUTXOs L (w\<lparr>DB := commit ops (DB w)\<rparr>) ks batch0 b =
         ReverseAccountUTXOs L w ks batch0 b"
  by (simp add: Reverse_eq Let_def loadAccountInfo_after_commit [OF assms] cong: if_cong)

section \<open>The example ledger, evaluated\<close>

lemma demo_cpdoc_neq [simp]:
  "demo_cpdoc1 \<noteq> demo_cpdoc3" "demo_cpdoc3 \<noteq> demo_cpdoc1"
  "demo_cpdoc1 \<noteq> ''not json''" "''not json'' \<noteq> demo_cpdoc1"
  "demo_cpdoc3 \<noteq> ''not json''" "''not json'' \<noteq> demo_cpdoc3"
  "demo_cpdoc1 \<noteq> demo_cpdocx" "demo_cpdocx \<noteq> demo_cpdoc1"
  "demo_cpdoc3 \<noteq> demo_cpdocx" "demo_cpdocx \<noteq> demo_cpdoc3"
  "demo_cpdocx \<noteq> ''not json''" "''not json'' \<noteq> demo_cpdocx"
  by (simp_all add: demo_cpdoc1_def demo_cpdoc3_def demo_cpdocx_def)

lemmas demo_defs =
  demo_lib_def demo_wallet_def demo_Unmarshal_def demo_raw_def demo_cp1_def demo_cp3_def
  demo_cpx_def

lemma demo_load:
  "loadAccountInfo demo_lib demo_wallet [''S1'', ''S2'', ''Sbad''] demo_outs =
     [annotate demo_cp1 (demo_raw ''O1'' ''S1'' ''T1'' 0),
      annotate demo_cp1 (demo_raw ''O3'' ''S1'' ''T1'' 2)]"
  by (simp add: loadAccountInfo_def groupOf_def demo_outs_def demo_defs)

lemma demo_order:
  "range_order (groupByScript demo_outs Map.empty) [''S1'', ''S2'', ''Sbad'']"
  by (auto simp: range_order_def dom_groupByScript demo_outs_def demo_raw_def)

lemmas demo_block_defs = demo_block1_def demo_block2_def demo_entry_def demo_txout_def

lemma demo_buildOuts1:
  "buildOuts (Transactions demo_block1) =
     Some [demo_raw ''O1'' ''S1'' ''T1'' 0, demo_raw ''O2'' ''S2'' ''T1'' 1]"
  by (simp add: demo_block_defs demo_raw_def)

lemma demo_load1:
  "loadAccountInfo demo_lib demo_wallet [''S1'', ''S2'']
      [demo_raw ''O1'' ''S1'' ''T1'' 0, demo_raw ''O2'' ''S2'' ''T1'' 1] =
     [annotate demo_cp1 (demo_raw ''O1'' ''S1'' ''T1'' 0)]"
  by (simp add: loadAccountInfo_def groupOf_def demo_defs)

lemma demo_utxoOf: "utxoOf (annotate demo_cp1 (demo_raw i ''S1'' t j)) = demo_utxo i"
  by (simp add: utxoOf_def demo_utxo_def demo_raw_def demo_cp1_def Bytes_def)

lemma demo_Build1:
  "BuildAccountUTXOs demo_lib demo_wallet [''S1'', ''S2''] [] demo_block1 =
     Some \<lparr>batch_of = [Set (AccountUTXOKey ''O1'') (demo_utxo ''O1'')], logged = []\<rparr>"
  by (simp add: Build_eq demo_buildOuts1 demo_load1 encodes_def demo_utxoOf)
     (simp add: demo_block_defs demo_lib_def tx_Spend_def Bytes_def demo_raw_def)

lemma demo_buildOuts2:
  "buildOuts (Transactions demo_block2) = Some [demo_raw ''O3'' ''S1'' ''T2'' 0]"
  by (simp add: demo_block_defs demo_raw_def)

lemma demo_reverseOuts2:
  "reverseOuts (Transactions demo_block2) =
     [demo_raw ''O1'' ''S1'' ''T2'' 0, demo_raw ''O2'' ''S2'' ''T2'' 0]"
  by (simp add: demo_block_defs demo_raw_def tx_Spend_def)

lemma demo_prevout2:
  "prevoutDBKeys (Transactions demo_block2) = [''O1'', ''O2'']"
  by (simp add: demo_block_defs tx_Spend_def)

lemma demo_load_S1:
  "loadAccountInfo demo_lib demo_wallet [''S1''] [demo_raw i ''S1'' t j] =
     [annotate demo_cp1 (demo_raw i ''S1'' t j)]"
  by (simp add: loadAccountInfo_def groupOf_def demo_defs)

lemma demo_Build2:
  "BuildAccountUTXOs demo_lib demo_wallet [''S1''] [] demo_block2 =
     Some \<lparr>batch_of = [Delete (AccountUTXOKey ''O1''), Delete (AccountUTXOKey ''O2''),
                       Set (AccountUTXOKey ''O3'') (demo_utxo ''O3'')], logged = []\<rparr>"
  by (simp add: Build_eq demo_buildOuts2 demo_prevout2 demo_load_S1 encodes_def demo_utxoOf)
     (simp add: demo_lib_def deleteOp_def Bytes_def demo_raw_def)

lemmas demo_block_defs' = demo_block_defs demo_block3_def demo_block6_def

lemma demo_encodes: "encodes demo_lib a"
  by (simp add: encodes_def demo_lib_def)






lemma demo_raw_sel [simp]:
  "OutputID (demo_raw i s t j) = i" "ControlProgram (demo_raw i s t j) = s"
  by (simp_all add: demo_raw_def)

lemma demo_buildOuts6:
  "buildOuts (Transactions demo_block6) =
     Some [demo_raw ''O8'' ''S3'' ''T7'' 0, demo_raw ''O7'' ''Sx'' ''T7'' 1]"
  by (simp add: demo_block_defs' demo_raw_def)

lemma demo_prevout6: "prevoutDBKeys (Transactions demo_block6) = []"
  by (simp add: demo_block_defs')

lemma demo_load6_S3_first:
  "loadAccountInfo demo_lib demo_wallet [''S3'', ''Sx'']
      [demo_raw ''O8'' ''S3'' ''T7'' 0, demo_raw ''O7'' ''Sx'' ''T7'' 1] =
     [annotate demo_cp3 (demo_raw ''O8'' ''S3'' ''T7'' 0),
      annotate (demo_cpx True) (demo_raw ''O7'' ''Sx'' ''T7'' 1)]"
  by (simp add: loadAccountInfo_def groupOf_def demo_defs zeroCtrlProgram_def)

lemma demo_load6_Sx_first:
  "loadAccountInfo demo_lib demo_wallet [''Sx'', ''S3'']
      [demo_raw ''O8'' ''S3'' ''T7'' 0, demo_raw ''O7'' ''Sx'' ''T7'' 1] =
     [annotate (demo_cpx False) (demo_raw ''O7'' ''Sx'' ''T7'' 1),
      annotate demo_cp3 (demo_raw ''O8'' ''S3'' ''T7'' 0)]"
  by (simp add: loadAccountInfo_def groupOf_def demo_defs zeroCtrlProgram_def)

lemma demo_Build6_S3_first:
  "BuildAccountUTXOs demo_lib demo_wallet [''S3'', ''Sx''] [] demo_block6 =
     Some \<lparr>batch_of =
             [Set (AccountUTXOKey ''O8'') (utxoOf (annotate demo_cp3 (demo_raw ''O8'' ''S3'' ''T7'' 0))),
              Set (AccountUTXOKey ''O7'')
                (utxoOf (annotate (demo_cpx True) (demo_raw ''O7'' ''Sx'' ''T7'' 1)))],
           logged = []\<rparr>"
  by (simp add: Build_eq demo_buildOuts6 demo_prevout6 demo_load6_S3_first demo_encodes)
     (simp add: demo_lib_def Bytes_def)

lemma demo_Build6_Sx_first:
  "BuildAccountUTXOs demo_lib demo_wallet [''Sx'', ''S3''] [] demo_block6 =
     Some \<lparr>batch_of =
             [Set (AccountUTXOKey ''O7'')
                (utxoOf (annotate (demo_cpx False) (demo_raw ''O7'' ''Sx'' ''T7'' 1))),
              Set (AccountUTXOKey ''O8'') (utxoOf (annotate demo_cp3 (demo_raw ''O8'' ''S3'' ''T7'' 0)))],
           logged = []\<rparr>"
  by (simp add: Build_eq demo_buildOuts6 demo_prevout6 demo_load6_Sx_first demo_encodes)
     (simp add: demo_lib_def Bytes_def)

lemma demo_resolves_S1: "resolves demo_lib demo_wallet ''S1''"
  by (simp add: resolves_def demo_defs)

section \<open>Ownership resolution\<close>

text \<open>
  In one pass of \<^verbatim>\<open>loadAccountInfo\<close>, whose range visits every script of the map once,
  any two annotated outputs that carry the same control program carry the same
  ownership metadata: both come from the one iteration that looked their script up.
\<close>

lemma same_script_same_metadata:
  assumes "range_order (groupByScript outs Map.empty) ks"
    and "a1 \<in> set (loadAccountInfo L w ks outs)"
    and "a2 \<in> set (loadAccountInfo L w ks outs)"
    and "ControlProgram a1 = ControlProgram a2"
  shows "AccountID a1 = AccountID a2 \<and> keyIndex a1 = keyIndex a2 \<and> change a1 = change a2"
proof -
  from assms(1) have "distinct ks"
    by (simp add: range_order_def)
  from rangeScripts_meta [OF this assms(2,3) [unfolded loadAccountInfo_def] assms(4)]
  show ?thesis .
qed

text \<open>
  C7, evaluated at a failing input. The two outputs \<open>O7\<close> and \<open>O9\<close> of script \<open>Sx\<close>
  carry the same metadata, but it is not what the registry lookup for \<open>Sx\<close> gives. The
  registry value of \<open>Sx\<close> holds no \<open>Change\<close> field and decodes, on its own, to a record
  that is no change; visited after \<open>S3\<close>, both outputs are annotated as change outputs,
  with the \<open>Change\<close> of the record of \<open>S3\<close>.
\<close>

theorem same_script_metadata_not_its_own:
  "DB demo_wallet (AccountCPKey (Sum256 demo_lib ''Sx'')) = Some demo_cpdocx \<and>
   Unmarshal demo_lib demo_cpdocx zeroCtrlProgram = (True, demo_cpx False) \<and>
   DB demo_wallet (AccountCPKey (Sum256 demo_lib ''S3'')) = Some demo_cpdoc3 \<and>
   Unmarshal demo_lib demo_cpdoc3 zeroCtrlProgram = (True, demo_cp3) \<and>
   cp_Change demo_cp3 \<and>
   range_order
     (groupByScript
        [demo_raw ''O8'' ''S3'' ''T7'' 0, demo_raw ''O7'' ''Sx'' ''T7'' 1,
         demo_raw ''O9'' ''Sx'' ''T7'' 2] Map.empty) [''S3'', ''Sx''] \<and>
   loadAccountInfo demo_lib demo_wallet [''S3'', ''Sx'']
      [demo_raw ''O8'' ''S3'' ''T7'' 0, demo_raw ''O7'' ''Sx'' ''T7'' 1,
       demo_raw ''O9'' ''Sx'' ''T7'' 2] =
     [annotate demo_cp3 (demo_raw ''O8'' ''S3'' ''T7'' 0),
      annotate (demo_cpx True) (demo_raw ''O7'' ''Sx'' ''T7'' 1),
      annotate (demo_cpx True) (demo_raw ''O9'' ''Sx'' ''T7'' 2)] \<and>
   change (annotate (demo_cpx True) (demo_raw ''O7'' ''Sx'' ''T7'' 1)) \<and>
   change (annotate (demo_cpx True) (demo_raw ''O9'' ''Sx'' ''T7'' 2)) \<and>
   \<not> cp_Change (demo_cpx False)"
proof -
  have "range_order
     (groupByScript
        [demo_raw ''O8'' ''S3'' ''T7'' 0, demo_raw ''O7'' ''Sx'' ''T7'' 1,
         demo_raw ''O9'' ''Sx'' ''T7'' 2] Map.empty) [''S3'', ''Sx'']"
    by (auto simp: range_order_def dom_groupByScript)
  then show ?thesis
    by (simp add: loadAccountInfo_def groupOf_def demo_defs zeroCtrlProgram_def)
qed

lemma loadAccountInfo_sound:
  assumes "a \<in> set (loadAccountInfo L w ks outs)"
  shows "rawOutput.truncate a \<in> set outs \<and>
         (\<exists>bytes cp0. DB w (AccountCPKey (Sum256 L (ControlProgram a))) = Some bytes \<and>
            fst (Unmarshal L bytes cp0) \<and>
            AccountID a = cp_AccountID (snd (Unmarshal L bytes cp0)) \<and>
            DB w (AccountKey (AccountID a)) \<noteq> None)"
proof -
  let ?m = "groupByScript outs Map.empty"
  from assms have a: "a \<in> set (rangeScripts L w ?m ks zeroCtrlProgram [])"
    by (simp add: loadAccountInfo_def)
  from rangeScripts_sound [OF a] obtain s bytes cp0 cp' out where
    db: "DB w (AccountCPKey (Sum256 L s)) = Some bytes" and
    dec: "Unmarshal L bytes cp0 = (True, cp')" and
    acc: "DB w (AccountKey (cp_AccountID cp')) \<noteq> None" and
    out: "out \<in> set (groupOf ?m s)" and a_eq: "a = annotate cp' out"
    by auto
  from out have "ControlProgram out = s" "out \<in> set outs"
    by (simp_all add: groupOf_groupByScript)
  with db dec acc a_eq show ?thesis
    by (auto intro!: exI [of _ bytes] exI [of _ cp0])
qed

lemma Set_in_upsertOps:
  assumes "Set (AccountUTXOKey (Bytes i)) v \<in> set (upsertOps L accOuts)"
  shows "\<exists>a \<in> set accOuts. OutputID a = i"
  using upsertOps_sound [OF assms] by (auto simp: Bytes_def)

lemma Set_not_delete: "Set k v \<notin> deleteOp ` A"
  by (auto simp: deleteOp_def)

text \<open>
  C8. A registry value that fails to decode drops every output of its script from the
  result, as a lookup miss does; \<^verbatim>\<open>loadAccountInfo\<close> has no error result, and the range
  continues: every output whose script resolves is in the result.
\<close>

theorem undecodable_registry_value_skipped:
  assumes "range_order (groupByScript outs Map.empty) ks"
    and "DB w (AccountCPKey (Sum256 L s)) = Some bytes"
    and "\<forall>cp. \<not> fst (Unmarshal L bytes cp)"
  shows "(\<forall>a \<in> set (loadAccountInfo L w ks outs). ControlProgram a \<noteq> s) \<and>
         (\<forall>out \<in> set outs. resolves L w (ControlProgram out) \<longrightarrow>
            out \<in> rawOutput.truncate ` set (loadAccountInfo L w ks outs))"
proof (intro conjI ballI impI)
  fix a
  assume a: "a \<in> set (loadAccountInfo L w ks outs)"
  show "ControlProgram a \<noteq> s"
  proof
    assume "ControlProgram a = s"
    with loadAccountInfo_sound [OF a] assms(2,3) show False by auto
  qed
next
  fix out
  assume out: "out \<in> set outs" and res: "resolves L w (ControlProgram out)"
  from assms(1) out have visited: "ControlProgram out \<in> set ks"
    by (auto simp: range_order_def dom_groupByScript)
  from out have "out \<in> set (groupOf (groupByScript outs Map.empty) (ControlProgram out))"
    by (simp add: groupOf_groupByScript)
  from rangeScripts_complete [OF visited res this]
  show "out \<in> rawOutput.truncate ` set (loadAccountInfo L w ks outs)"
    by (simp add: loadAccountInfo_def)
qed

theorem undecodable_registry_value_skipped_witness:
  "range_order (groupByScript demo_outs Map.empty) [''S1'', ''S2'', ''Sbad''] \<and>
   DB demo_wallet (AccountCPKey (Sum256 demo_lib ''Sbad'')) = Some ''not json'' \<and>
   \<not> fst (Unmarshal demo_lib ''not json'' zeroCtrlProgram) \<and>
   demo_raw ''O4'' ''Sbad'' ''T1'' 3 \<in> set demo_outs \<and>
   ''Sbad'' \<notin> ControlProgram ` set (loadAccountInfo demo_lib demo_wallet [''S1'', ''S2'', ''Sbad''] demo_outs) \<and>
   demo_raw ''O3'' ''S1'' ''T1'' 2 \<in>
     rawOutput.truncate ` set (loadAccountInfo demo_lib demo_wallet [''S1'', ''S2'', ''Sbad''] demo_outs)"
proof -
  have db: "DB demo_wallet (AccountCPKey (Sum256 demo_lib ''Sbad'')) = Some ''not json''"
    by (simp add: demo_lib_def demo_wallet_def)
  have bad: "\<forall>cp. \<not> fst (Unmarshal demo_lib ''not json'' cp)"
    by (simp add: demo_lib_def demo_Unmarshal_def)
  have o3: "demo_raw ''O3'' ''S1'' ''T1'' 2 \<in> set demo_outs"
   and o4: "demo_raw ''O4'' ''Sbad'' ''T1'' 3 \<in> set demo_outs"
    by (simp_all add: demo_outs_def)
  have s1: "resolves demo_lib demo_wallet (ControlProgram (demo_raw ''O3'' ''S1'' ''T1'' 2))"
    by (simp add: demo_raw_def demo_resolves_S1)
  from undecodable_registry_value_skipped [OF demo_order db bad]
  have "\<forall>a \<in> set (loadAccountInfo demo_lib demo_wallet [''S1'', ''S2'', ''Sbad''] demo_outs).
          ControlProgram a \<noteq> ''Sbad''"
   and "demo_raw ''O3'' ''S1'' ''T1'' 2 \<in>
     rawOutput.truncate ` set (loadAccountInfo demo_lib demo_wallet [''S1'', ''S2'', ''Sbad''] demo_outs)"
    using o3 s1 by blast+
  with demo_order db bad o4 show ?thesis by auto
qed

text \<open>A lookup miss and a missing account drop the outputs of the script in the same
  way.\<close>

lemma unresolved_script_skipped:
  assumes "DB w (AccountCPKey (Sum256 L s)) = None \<or>
           (\<exists>bytes. DB w (AccountCPKey (Sum256 L s)) = Some bytes \<and>
              (\<forall>cp. DB w (AccountKey (cp_AccountID (snd (Unmarshal L bytes cp)))) = None))"
  shows "\<forall>a \<in> set (loadAccountInfo L w ks outs). ControlProgram a \<noteq> s"
proof
  fix a
  assume "a \<in> set (loadAccountInfo L w ks outs)"
  from loadAccountInfo_sound [OF this] obtain bytes cp0 where
    "DB w (AccountCPKey (Sum256 L (ControlProgram a))) = Some bytes"
    "AccountID a = cp_AccountID (snd (Unmarshal L bytes cp0))"
    "DB w (AccountKey (AccountID a)) \<noteq> None"
    by auto
  with assms show "ControlProgram a \<noteq> s" by auto
qed

text \<open>
  C10, evaluated at a failing input. The registry value of script \<open>Sx\<close> names account
  \<open>A1\<close> and key index 2 and holds no \<open>Change\<close> field, so after decoding it \<^verbatim>\<open>cp\<close>
  keeps the \<open>Change\<close> the script visited before left in it. With the same wallet, the
  output \<open>O7\<close> of \<open>Sx\<close> is annotated as a change output in a batch that also holds an
  output of \<open>S3\<close> (a change script) when \<open>S3\<close> is visited first, and as no change
  output in a batch that holds an output of \<open>S1\<close> instead, or when it is alone.
\<close>

theorem loadAccountInfo_metadata_leak:
  "DB demo_wallet (AccountCPKey (Sum256 demo_lib ''Sx'')) = Some demo_cpdocx \<and>
   loadAccountInfo demo_lib demo_wallet [''S3'', ''Sx'']
      [demo_raw ''O8'' ''S3'' ''T1'' 0, demo_raw ''O7'' ''Sx'' ''T1'' 1] =
     [annotate demo_cp3 (demo_raw ''O8'' ''S3'' ''T1'' 0),
      annotate (demo_cpx True) (demo_raw ''O7'' ''Sx'' ''T1'' 1)] \<and>
   loadAccountInfo demo_lib demo_wallet [''S1'', ''Sx'']
      [demo_raw ''O1'' ''S1'' ''T1'' 0, demo_raw ''O7'' ''Sx'' ''T1'' 1] =
     [annotate demo_cp1 (demo_raw ''O1'' ''S1'' ''T1'' 0),
      annotate (demo_cpx False) (demo_raw ''O7'' ''Sx'' ''T1'' 1)] \<and>
   loadAccountInfo demo_lib demo_wallet [''Sx''] [demo_raw ''O7'' ''Sx'' ''T1'' 1] =
     [annotate (demo_cpx False) (demo_raw ''O7'' ''Sx'' ''T1'' 1)] \<and>
   change (annotate (demo_cpx True) (demo_raw ''O7'' ''Sx'' ''T1'' 1)) \<noteq>
     change (annotate (demo_cpx False) (demo_raw ''O7'' ''Sx'' ''T1'' 1))"
  by (simp add: loadAccountInfo_def groupOf_def demo_defs zeroCtrlProgram_def)

text \<open>
  What does hold: the metadata of a script whose own registry value decodes without
  history is that of its own record, in every batch and for every visiting order,
  whatever the registry holds for the other scripts.
\<close>

lemma loadAccountInfo_own_record:
  assumes "DB w (AccountCPKey (Sum256 L s)) = Some bytes" and "history_free L bytes"
    and "a \<in> set (loadAccountInfo L w ks outs)" and "ControlProgram a = s"
  shows "AccountID a = cp_AccountID (ownerOf L bytes) \<and>
         keyIndex a = cp_KeyIndex (ownerOf L bytes) \<and>
         change a = cp_Change (ownerOf L bytes)"
proof -
  let ?m = "groupByScript outs Map.empty"
  from assms(3) have "a \<in> set (rangeScripts L w ?m ks zeroCtrlProgram [])"
    by (simp add: loadAccountInfo_def)
  from rangeScripts_sound [OF this] obtain s' bytes' cp0 cp' out where
    db: "DB w (AccountCPKey (Sum256 L s')) = Some bytes'" and
    dec: "Unmarshal L bytes' cp0 = (True, cp')" and
    out: "out \<in> set (groupOf ?m s')" and a_eq: "a = annotate cp' out"
    by auto
  from out a_eq assms(4) have "s' = s"
    by (simp add: groupOf_groupByScript)
  with db assms(1) have "bytes' = bytes" by simp
  with dec assms(2) have "cp' = ownerOf L bytes"
    by (metis history_free_def ownerOf_def snd_conv)
  with a_eq show ?thesis by simp
qed

lemma visit_history_free:
  assumes "complete_registry L w"
  shows "set (snd (visit L w (groupByScript outs Map.empty) s cp)) =
           {a \<in> resolved L w outs. ControlProgram a = s}"
proof (cases "DB w (AccountCPKey (Sum256 L s))")
  case None
  then show ?thesis
    by (auto simp: visit_def resolved_def)
next
  case (Some bytes)
  with assms have hf: "Unmarshal L bytes cp = Unmarshal L bytes zeroCtrlProgram"
    by (auto simp: complete_registry_def history_free_def)
  show ?thesis
  proof (cases "fst (Unmarshal L bytes zeroCtrlProgram) \<and>
                DB w (AccountKey (cp_AccountID (ownerOf L bytes))) \<noteq> None")
    case True
    with Some hf have "snd (visit L w (groupByScript outs Map.empty) s cp) =
        map (annotate (ownerOf L bytes)) (filter (\<lambda>out. ControlProgram out = s) outs)"
      by (auto simp: visit_def ownerOf_def groupOf_groupByScript split: prod.splits bool.splits)
    with Some True show ?thesis
      by (auto simp: resolved_def)
  next
    case False
    with Some hf have "snd (visit L w (groupByScript outs Map.empty) s cp) = []"
      by (auto simp: visit_def ownerOf_def split: prod.splits bool.splits option.splits)
    with Some False show ?thesis
      by (auto simp: resolved_def)
  qed
qed

lemma rangeScripts_history_free:
  assumes "complete_registry L w"
  shows "set (rangeScripts L w (groupByScript outs Map.empty) ks cp []) =
           {a \<in> resolved L w outs. ControlProgram a \<in> set ks}"
proof (induction ks arbitrary: cp)
  case Nil
  then show ?case by simp
next
  case (Cons s ks)
  show ?case
    unfolding rangeScripts_Cons
    by (auto simp: Cons.IH visit_history_free [OF assms])
qed

lemma loadAccountInfo_any_order:
  assumes "complete_registry L w" and "range_order (groupByScript outs Map.empty) ks"
  shows "set (loadAccountInfo L w ks outs) = resolved L w outs"
proof -
  have "ControlProgram a \<in> set ks" if "a \<in> resolved L w outs" for a
    using that assms(2) by (auto simp: resolved_def range_order_def dom_groupByScript)
  then show ?thesis
    by (auto simp: loadAccountInfo_def rangeScripts_history_free [OF assms(1)])
qed

section \<open>Confirmation\<close>

text \<open>
  C4. A created output whose script has no entry in the control-program registry is
  never written: when every output of the block that carries the output id \<open>i\<close> has a
  script whose hash misses the registry, the operations \<^verbatim>\<open>BuildAccountUTXOs\<close> appends
  to the batch hold no set for the key of \<open>i\<close>, whatever the asset and the amount.
\<close>

theorem foreign_output_not_written:
  assumes "BuildAccountUTXOs L w ks batch0 b = Some r"
    and "\<forall>tx \<in> set (Transactions b). \<forall>j < length (Outputs tx).
           ResultIds tx ! j = i \<longrightarrow>
           DB w (AccountCPKey (Sum256 L (to_ControlProgram (Outputs tx ! j)))) = None"
  shows "\<exists>ops. batch_of r = batch0 @ ops \<and> (\<forall>v. Set (AccountUTXOKey (Bytes i)) v \<notin> set ops)"
proof -
  from assms(1) obtain outs where
    outs: "buildOuts (Transactions b) = Some outs" and
    batch: "batch_of r = batch0 @ map deleteOp (prevoutDBKeys (Transactions b)) @
              upsertOps L (loadAccountInfo L w ks outs)"
    by (auto simp: Build_eq split: option.splits)
  let ?ops = "map deleteOp (prevoutDBKeys (Transactions b)) @
              upsertOps L (loadAccountInfo L w ks outs)"
  have "Set (AccountUTXOKey (Bytes i)) v \<notin> set ?ops" for v
  proof
    assume "Set (AccountUTXOKey (Bytes i)) v \<in> set ?ops"
    then have "Set (AccountUTXOKey (Bytes i)) v \<in> set (upsertOps L (loadAccountInfo L w ks outs))"
      by (simp add: Set_not_delete)
    from Set_in_upsertOps [OF this] obtain a where
      a: "a \<in> set (loadAccountInfo L w ks outs)" and i: "OutputID a = i"
      by auto
    from loadAccountInfo_sound [OF a] have
      raw: "rawOutput.truncate a \<in> set outs" and
      reg: "DB w (AccountCPKey (Sum256 L (ControlProgram a))) \<noteq> None"
      by auto
    from buildOuts_sound [OF outs raw] obtain tx j where
      tx: "tx \<in> set (Transactions b)" and j: "j < length (Outputs tx)" and
      rid: "ResultIds tx ! j = OutputID a" and
      prog: "to_ControlProgram (Outputs tx ! j) = ControlProgram a"
      by (auto simp: rawOutput.truncate_def)
    from assms(2) tx j rid i
    have "DB w (AccountCPKey (Sum256 L (to_ControlProgram (Outputs tx ! j)))) = None"
      by blast
    with prog reg show False by simp
  qed
  with batch show ?thesis by blast
qed

theorem foreign_output_not_written_witness:
  "BuildAccountUTXOs demo_lib demo_wallet [''S1'', ''S2''] [] demo_block1 =
     Some \<lparr>batch_of = [Set (AccountUTXOKey ''O1'') (demo_utxo ''O1'')], logged = []\<rparr> \<and>
   DB demo_wallet (AccountCPKey (Sum256 demo_lib ''S2'')) = None \<and>
   (\<exists>ops. [Set (AccountUTXOKey ''O1'') (demo_utxo ''O1'')] = [] @ ops \<and>
      (\<forall>v. Set (AccountUTXOKey (Bytes ''O2'')) v \<notin> set ops))"
proof -
  have foreign: "\<forall>tx \<in> set (Transactions demo_block1). \<forall>j < length (Outputs tx).
           ResultIds tx ! j = ''O2'' \<longrightarrow>
           DB demo_wallet (AccountCPKey (Sum256 demo_lib (to_ControlProgram (Outputs tx ! j)))) = None"
    by (simp add: demo_block_defs demo_lib_def demo_wallet_def All_less_Suc)
  have miss: "DB demo_wallet (AccountCPKey (Sum256 demo_lib ''S2'')) = None"
    by (simp add: demo_lib_def demo_wallet_def)
  from foreign_output_not_written [OF demo_Build1 foreign] demo_Build1 miss
  show ?thesis by simp
qed

text \<open>
  C6. A retirement is never extracted and never indexed: when no result carrying the id
  \<open>i\<close> has an output entry, the extraction of \<^verbatim>\<open>BuildAccountUTXOs\<close> yields no output
  with that id and the appended operations hold no set for its key, also when the
  script of the retirement hashes to a tracked registry entry.
\<close>

theorem retirement_not_indexed:
  assumes "BuildAccountUTXOs L w ks batch0 b = Some r"
    and "\<forall>tx \<in> set (Transactions b). \<forall>j < length (Outputs tx).
           ResultIds tx ! j = i \<longrightarrow> (\<nexists>resOut. Entries tx i = Some (Output resOut))"
  shows "\<exists>outs ops. buildOuts (Transactions b) = Some outs \<and> i \<notin> OutputID ` set outs \<and>
           batch_of r = batch0 @ ops \<and> (\<forall>v. Set (AccountUTXOKey (Bytes i)) v \<notin> set ops)"
proof -
  from assms(1) obtain outs where
    outs: "buildOuts (Transactions b) = Some outs" and
    batch: "batch_of r = batch0 @ map deleteOp (prevoutDBKeys (Transactions b)) @
              upsertOps L (loadAccountInfo L w ks outs)"
    by (auto simp: Build_eq split: option.splits)
  let ?ops = "map deleteOp (prevoutDBKeys (Transactions b)) @
              upsertOps L (loadAccountInfo L w ks outs)"
  have skipped: "i \<notin> OutputID ` set outs"
  proof
    assume "i \<in> OutputID ` set outs"
    then obtain out where out: "out \<in> set outs" and i: "OutputID out = i" by auto
    from buildOuts_sound [OF outs out] i assms(2) show False by auto
  qed
  have "Set (AccountUTXOKey (Bytes i)) v \<notin> set ?ops" for v
  proof
    assume "Set (AccountUTXOKey (Bytes i)) v \<in> set ?ops"
    then have "Set (AccountUTXOKey (Bytes i)) v \<in> set (upsertOps L (loadAccountInfo L w ks outs))"
      by (simp add: Set_not_delete)
    from Set_in_upsertOps [OF this] obtain a where
      a: "a \<in> set (loadAccountInfo L w ks outs)" and i: "OutputID a = i"
      by auto
    from loadAccountInfo_sound [OF a] have "rawOutput.truncate a \<in> set outs"
      by simp
    then have "OutputID a \<in> OutputID ` set outs"
      by (force simp: rawOutput.truncate_def)
    with i skipped show False by simp
  qed
  with outs skipped batch show ?thesis by blast
qed

theorem retirement_not_indexed_witness:
  "BuildAccountUTXOs demo_lib demo_wallet [''S1'', ''S2''] [] demo_block1 =
     Some \<lparr>batch_of = [Set (AccountUTXOKey ''O1'') (demo_utxo ''O1'')], logged = []\<rparr> \<and>
   Entries (hd (Transactions demo_block1)) ''R1'' = Some Retirement \<and>
   to_ControlProgram (Outputs (hd (Transactions demo_block1)) ! 2) = ''S1'' \<and>
   DB demo_wallet (AccountCPKey (Sum256 demo_lib ''S1'')) = Some demo_cpdoc1 \<and>
   (\<exists>outs ops. buildOuts (Transactions demo_block1) = Some outs \<and>
      ''R1'' \<notin> OutputID ` set outs \<and>
      [Set (AccountUTXOKey ''O1'') (demo_utxo ''O1'')] = [] @ ops \<and>
      (\<forall>v. Set (AccountUTXOKey (Bytes ''R1'')) v \<notin> set ops))"
proof -
  have retired: "\<forall>tx \<in> set (Transactions demo_block1). \<forall>j < length (Outputs tx).
           ResultIds tx ! j = ''R1'' \<longrightarrow> (\<nexists>resOut. Entries tx ''R1'' = Some (Output resOut))"
    by (simp add: demo_block_defs)
  have facts: "Entries (hd (Transactions demo_block1)) ''R1'' = Some Retirement"
    "to_ControlProgram (Outputs (hd (Transactions demo_block1)) ! 2) = ''S1''"
    "DB demo_wallet (AccountCPKey (Sum256 demo_lib ''S1'')) = Some demo_cpdoc1"
    by (simp_all add: demo_block_defs demo_lib_def demo_wallet_def)
  from retirement_not_indexed [OF demo_Build1 retired] demo_Build1 facts
  show ?thesis by simp
qed

text \<open>
  C5. Every output id spent by an input of a transaction of the block gets a delete in
  the batch. The deletes are those of \<^verbatim>\<open>prevoutDBKeys\<close>, which reads the block only:
  neither the wallet nor the registry is consulted. Committing a delete of an absent
  key leaves the index as it was.
\<close>

theorem spent_outputs_deleted:
  assumes "BuildAccountUTXOs L w ks batch0 b = Some r"
    and "tx \<in> set (Transactions b)" and "inpID \<in> set (InputIDs tx)"
    and "Entries tx inpID = Some (Spend sp)"
  shows "Delete (AccountUTXOKey (Bytes (SpentOutputId sp))) \<in> set (batch_of r) \<and>
         (\<exists>sets. batch_of r =
            batch0 @
            map (\<lambda>i. Delete (AccountUTXOKey (Bytes i))) (prevoutDBKeys (Transactions b)) @
            sets) \<and>
         (idx k = None \<longrightarrow> commit [Delete k] idx = idx)"
proof -
  from assms(1) obtain outs where
    batch: "batch_of r = batch0 @ map deleteOp (prevoutDBKeys (Transactions b)) @
              upsertOps L (loadAccountInfo L w ks outs)"
    by (auto simp: Build_eq split: option.splits)
  have "SpentOutputId sp \<in> set (prevoutDBKeys (Transactions b))"
    using assms(2-4) by (rule prevoutDBKeys_complete)
  then have "deleteOp (SpentOutputId sp) \<in> set (batch_of r)"
    by (simp add: batch)
  moreover have "map deleteOp (prevoutDBKeys (Transactions b)) =
      map (\<lambda>i. Delete (AccountUTXOKey (Bytes i))) (prevoutDBKeys (Transactions b))"
    by (simp add: deleteOp_def)
  moreover have "idx k = None \<longrightarrow> commit [Delete k] idx = idx"
    by (auto simp: commit_def)
  ultimately show ?thesis
    using batch by (auto simp: deleteOp_def)
qed

theorem spent_outputs_deleted_witness:
  "BuildAccountUTXOs demo_lib demo_wallet [''S1''] [] demo_block2 =
     Some \<lparr>batch_of = [Delete (AccountUTXOKey ''O1''), Delete (AccountUTXOKey ''O2''),
                       Set (AccountUTXOKey ''O3'') (demo_utxo ''O3'')], logged = []\<rparr> \<and>
   Entries (hd (Transactions demo_block2)) ''SP2'' = Some (Spend \<lparr>SpentOutputId = ''O2''\<rparr>) \<and>
   DB demo_wallet (AccountCPKey (Sum256 demo_lib ''S2'')) = None \<and>
   Delete (AccountUTXOKey (Bytes ''O2'')) \<in>
     set [Delete (AccountUTXOKey ''O1''), Delete (AccountUTXOKey ''O2''),
          Set (AccountUTXOKey ''O3'') (demo_utxo ''O3'')] \<and>
   commit [Delete (AccountUTXOKey ''O2'')] (Map.empty :: dbkey \<rightharpoonup> UTXO) = Map.empty"
proof -
  let ?tx = "hd (Transactions demo_block2)"
  have tx: "?tx \<in> set (Transactions demo_block2)"
    by (simp add: demo_block2_def)
  have inp: "''SP2'' \<in> set (InputIDs ?tx)"
    by (simp add: demo_block2_def)
  have sp: "Entries ?tx ''SP2'' = Some (Spend \<lparr>SpentOutputId = ''O2''\<rparr>)"
    by (simp add: demo_block2_def)
  have miss: "DB demo_wallet (AccountCPKey (Sum256 demo_lib ''S2'')) = None"
    by (simp add: demo_lib_def demo_wallet_def)
  from spent_outputs_deleted [OF demo_Build2 tx inp sp,
      of "Map.empty :: dbkey \<rightharpoonup> UTXO" "AccountUTXOKey ''O2''"]
    demo_Build2 sp miss
  show ?thesis by simp
qed

text \<open>
  Applying \<^verbatim>\<open>BuildAccountUTXOs\<close> for the same block twice, the range visiting the
  scripts in the same order both times, writes the operations of one application twice,
  and committing them gives the index one application gives.
\<close>

lemma idempotent_same_order:
  assumes "BuildAccountUTXOs L w ks [] b = Some r1"
    and "BuildAccountUTXOs L w ks (batch_of r1) b = Some r2"
  shows "batch_of r2 = batch_of r1 @ batch_of r1 \<and>
         commit (batch_of r2) idx = commit (batch_of r1) idx \<and>
         commit (batch_of r1) (commit (batch_of r1) idx) = commit (batch_of r1) idx"
proof -
  from assms have twice: "batch_of r2 = batch_of r1 @ batch_of r1"
    by (auto simp: Build_eq split: option.splits)
  then show ?thesis
    by (simp add: commit_append commit_idem)
qed

text \<open>
  Go ranges over the map anew in each call, so the two applications may visit the
  scripts in different orders. The order does not matter when the registry's values
  decode without history, the created outputs have distinct ids and no record fails to
  encode.
\<close>

lemma upsertOps_set:
  assumes "list_all (encodes L) accOuts"
  shows "set (upsertOps L accOuts) =
           (\<lambda>a. Set (AccountUTXOKey (Bytes (OutputID a))) (the (Marshal L (utxoOf a)))) ` set accOuts"
  using assms by (induction accOuts) (auto simp: encodes_def)

lemma resolved_functional:
  assumes "distinct (map OutputID outs)"
    and "a \<in> resolved L w outs" and "a' \<in> resolved L w outs"
    and "OutputID a = OutputID a'"
  shows "a = a'"
proof -
  from assms(2) obtain out bytes where
    a: "a = annotate (ownerOf L bytes) out" and out: "out \<in> set outs" and
    db: "DB w (AccountCPKey (Sum256 L (ControlProgram out))) = Some bytes"
    by (auto simp: resolved_def)
  from assms(3) obtain out' bytes' where
    a': "a' = annotate (ownerOf L bytes') out'" and out': "out' \<in> set outs" and
    db': "DB w (AccountCPKey (Sum256 L (ControlProgram out'))) = Some bytes'"
    by (auto simp: resolved_def)
  from assms(4) a a' have "OutputID out = OutputID out'" by simp
  with assms(1) out out' have "out = out'"
    by (meson distinct_map inj_onD)
  with db db' a a' show ?thesis by simp
qed

lemma idempotent_any_order:
  assumes reg: "complete_registry L w"
    and outs: "buildOuts (Transactions b) = Some outs"
    and ids: "distinct (map OutputID outs)"
    and o1: "range_order (groupByScript outs Map.empty) ks1"
    and o2: "range_order (groupByScript outs Map.empty) ks2"
    and first: "BuildAccountUTXOs L w ks1 [] b = Some r1"
    and second: "BuildAccountUTXOs L w ks2 (batch_of r1) b = Some r2"
    and ok: "logged r1 = []" "logged r2 = []"
  shows "commit (batch_of r2) idx = commit (batch_of r1) idx"
proof
  fix k
  let ?acc1 = "loadAccountInfo L w ks1 outs" and ?acc2 = "loadAccountInfo L w ks2 outs"
  let ?dels = "map deleteOp (prevoutDBKeys (Transactions b)) :: 'a op list"
  let ?sets1 = "upsertOps L ?acc1" and ?sets2 = "upsertOps L ?acc2"
  let ?setOp = "\<lambda>a. Set (AccountUTXOKey (Bytes (OutputID a))) (the (Marshal L (utxoOf a)))"
  from first outs have b1: "batch_of r1 = ?dels @ ?sets1"
    by (auto simp: Build_eq)
  from second outs have b2: "batch_of r2 = batch_of r1 @ ?dels @ ?sets2"
    by (auto simp: Build_eq)
  from first outs ok(1) have enc1: "list_all (encodes L) ?acc1"
    by (auto simp: Build_eq split: if_splits)
  from second outs ok(2) have enc2: "list_all (encodes L) ?acc2"
    by (auto simp: Build_eq split: if_splits)
  have acc1: "set ?acc1 = resolved L w outs" and acc2: "set ?acc2 = resolved L w outs"
    using reg o1 o2 by (simp_all add: loadAccountInfo_any_order)
  have s1: "set ?sets1 = ?setOp ` resolved L w outs"
   and s2: "set ?sets2 = ?setOp ` resolved L w outs"
    using enc1 enc2 acc1 acc2 by (simp_all add: upsertOps_set)
  have functional: "x = y"
    if "x \<in> ?setOp ` resolved L w outs" "y \<in> ?setOp ` resolved L w outs"
       "key_of x = key_of y" for x y :: "'a op"
  proof -
    from that obtain a a' where
      "a \<in> resolved L w outs" "a' \<in> resolved L w outs" "x = ?setOp a" "y = ?setOp a'"
      "OutputID a = OutputID a'"
      by (auto simp: Bytes_def)
    with resolved_functional [OF ids] show ?thesis by blast
  qed
  show "commit (batch_of r2) idx k = commit (batch_of r1) idx k"
  proof (cases "k \<in> key_of ` ?setOp ` resolved L w outs")
    case True
    then obtain x where x: "x \<in> ?setOp ` resolved L w outs" and kx: "key_of x = k"
      by blast
    have "commit ?sets2 J k = apply_op Map.empty x k" for J
      using x kx functional by (intro commit_agree) (simp_all add: s2)
    moreover have "commit ?sets1 J k = apply_op Map.empty x k" for J
      using x kx functional by (intro commit_agree) (simp_all add: s1)
    ultimately show ?thesis
      by (simp add: b2 b1 commit_append)
  next
    case False
    then have u1: "k \<notin> key_of ` set ?sets1" and u2: "k \<notin> key_of ` set ?sets2"
      by (simp_all add: s1 s2)
    then have step: "commit (batch_of r2) idx k = commit ?dels (commit (batch_of r1) idx) k"
      by (simp add: b2 commit_append commit_untouched)
    show ?thesis
    proof (cases "k \<in> key_of ` set ?dels")
      case True
      then obtain i where "i \<in> set (prevoutDBKeys (Transactions b))"
        "k = AccountUTXOKey (Bytes i)"
        by (auto simp: image_image)
      then have "commit ?dels J k = None" for J :: "dbkey \<rightharpoonup> 'a"
        by (simp add: commit_deletes)
      with step u1 show ?thesis
        by (simp add: b1 commit_append commit_untouched)
    next
      case False
      with step show ?thesis
        by (simp add: commit_untouched)
    qed
  qed
qed

text \<open>
  C2, evaluated at a failing input. Block 6 creates \<open>O8\<close> under script \<open>S3\<close> and \<open>O7\<close>
  under script \<open>Sx\<close>, whose registry value holds no \<open>Change\<close> field. The first
  application visits \<open>S3\<close> before \<open>Sx\<close> and records \<open>O7\<close> as a change output; the
  second visits \<open>Sx\<close> first and records it as no change output. After the two
  applications the index holds another record for \<open>O7\<close> than after the first.
\<close>

theorem confirmation_twice_differs:
  "BuildAccountUTXOs demo_lib demo_wallet [''S3'', ''Sx''] [] demo_block6 =
     Some \<lparr>batch_of =
             [Set (AccountUTXOKey ''O8'') (utxoOf (annotate demo_cp3 (demo_raw ''O8'' ''S3'' ''T7'' 0))),
              Set (AccountUTXOKey ''O7'')
                (utxoOf (annotate (demo_cpx True) (demo_raw ''O7'' ''Sx'' ''T7'' 1)))],
           logged = []\<rparr> \<and>
   BuildAccountUTXOs demo_lib demo_wallet [''Sx'', ''S3''] [] demo_block6 =
     Some \<lparr>batch_of =
             [Set (AccountUTXOKey ''O7'')
                (utxoOf (annotate (demo_cpx False) (demo_raw ''O7'' ''Sx'' ''T7'' 1))),
              Set (AccountUTXOKey ''O8'') (utxoOf (annotate demo_cp3 (demo_raw ''O8'' ''S3'' ''T7'' 0)))],
           logged = []\<rparr> \<and>
   commit
     [Set (AccountUTXOKey ''O8'') (utxoOf (annotate demo_cp3 (demo_raw ''O8'' ''S3'' ''T7'' 0))),
      Set (AccountUTXOKey ''O7'')
        (utxoOf (annotate (demo_cpx True) (demo_raw ''O7'' ''Sx'' ''T7'' 1)))]
     Map.empty (AccountUTXOKey ''O7'') =
     Some (utxoOf (annotate (demo_cpx True) (demo_raw ''O7'' ''Sx'' ''T7'' 1))) \<and>
   commit
     [Set (AccountUTXOKey ''O7'')
        (utxoOf (annotate (demo_cpx False) (demo_raw ''O7'' ''Sx'' ''T7'' 1))),
      Set (AccountUTXOKey ''O8'') (utxoOf (annotate demo_cp3 (demo_raw ''O8'' ''S3'' ''T7'' 0)))]
     (commit
        [Set (AccountUTXOKey ''O8'') (utxoOf (annotate demo_cp3 (demo_raw ''O8'' ''S3'' ''T7'' 0))),
         Set (AccountUTXOKey ''O7'')
           (utxoOf (annotate (demo_cpx True) (demo_raw ''O7'' ''Sx'' ''T7'' 1)))]
        Map.empty) (AccountUTXOKey ''O7'') =
     Some (utxoOf (annotate (demo_cpx False) (demo_raw ''O7'' ''Sx'' ''T7'' 1))) \<and>
   u_Change (utxoOf (annotate (demo_cpx True) (demo_raw ''O7'' ''Sx'' ''T7'' 1))) \<and>
   \<not> u_Change (utxoOf (annotate (demo_cpx False) (demo_raw ''O7'' ''Sx'' ''T7'' 1)))"
  by (simp add: demo_Build6_S3_first demo_Build6_Sx_first commit_def)
     (simp add: utxoOf_def demo_cpx_def)

section \<open>Reversal\<close>





section \<open>The projection\<close>




end
